theory Spec2Isabelle
  imports Main "HOL-Library.AList"
begin

section \<open>Gaggle: Anki plain-text exports\<close>

text \<open>
  A shallow embedding of \<^verbatim>\<open>src/gaggle/gaggle.py\<close> and \<^verbatim>\<open>src/gaggle/exceptions.py\<close>:
  the header codec (\<^verbatim>\<open>read_header_settings\<close>, \<^verbatim>\<open>reformat_header_settings\<close>,
  \<^verbatim>\<open>AnkiDeck.write_header\<close>), the field-name resolver
  (\<^verbatim>\<open>_generate_unique_field_names\<close>), the card constructor (\<^verbatim>\<open>AnkiCard.__init__\<close>) and
  the deck parser (\<^verbatim>\<open>_parse_anki_export\<close>, \<^verbatim>\<open>create_cards_from_tsv\<close>).

  Conventions of the embedding.
  \<^item> A Python \<^verbatim>\<open>str\<close> is a \<^typ>\<open>string\<close>; characters are restricted to the 8-bit range.
  \<^item> A Python \<^verbatim>\<open>int\<close> is an \<^typ>\<open>int\<close>. The interpreter's adjustable limit on the
    number of decimal digits in conversions between \<^verbatim>\<open>int\<close> and \<^verbatim>\<open>str\<close> is taken as
    switched off.
  \<^item> A \<^verbatim>\<open>dict\<close> is an association list in insertion order with distinct keys;
    assignment to a key is \<^const>\<open>AList.update\<close> (an existing key keeps its place, a new
    key goes to the end).
  \<^item> An exception is a value \<open>Inl e\<close> of a sum type. The payload of an error is the
    fixed part of the source's message.
  \<^item> A text stream is the string that remains to be read.
  \<^item> The warnings a call hands to \<^verbatim>\<open>warnings.warn\<close> are returned as a list, in order.
\<close>

subsection \<open>Values, errors and warnings\<close>

datatype pyval = PNone | PStr string | PInt int

datatype error =
    ValueError string
  | TypeError string
  | KeyError string
  | AttributeError string
  | CsvError string

text \<open>
  The warning classes of \<^verbatim>\<open>exceptions.py\<close> are
  \<^verbatim>\<open>DuplicateWarning(context_message, duplicate_value, replacement_value)\<close> and
  \<^verbatim>\<open>LeftoverArgumentWarning(context_message, leftovers, leftover_name)\<close>.
  \<open>UserWarning\<close> is the category \<^verbatim>\<open>warnings.warn\<close> gives to a message that is not a
  \<^verbatim>\<open>Warning\<close> instance; its payload is \<^verbatim>\<open>str(message)\<close>.
\<close>

text \<open>
  \<^verbatim>\<open>_generate_unique_field_names\<close> also names a class
  \<^verbatim>\<open>exceptions.HeaderFieldNameMismatchWarning\<close>. The module \<^verbatim>\<open>exceptions.py\<close> declares no
  such class, so there is no warning of that kind: looking the name up in the module
  raises \<^verbatim>\<open>AttributeError\<close>.
\<close>

datatype warning =
    DuplicateWarning string string string
  | LeftoverArgumentWarning string string string
  | UserWarning string

subsection \<open>Decimal notation\<close>

definition digit_char :: "nat \<Rightarrow> char" where
  "digit_char d = ''0123456789'' ! d"

fun str_nat :: "nat \<Rightarrow> string" where
  "str_nat n = (if n < 10 then [digit_char n] else str_nat (n div 10) @ [digit_char (n mod 10)])"

declare str_nat.simps [simp del]

text \<open>\<^verbatim>\<open>str(n)\<close>, also what an f-string writes for an \<^verbatim>\<open>int\<close>.\<close>

definition str_int :: "int \<Rightarrow> string" where
  "str_int i = (if i < 0 then CHR ''-'' # str_nat (nat (- i)) else str_nat (nat i))"

subsection \<open>Binding the arguments of a call\<close>

text \<open>
  How Python binds a call to a signature without \<^verbatim>\<open>**kwargs\<close>: the positional
  arguments fill the positional-or-keyword parameters from the left, the excess goes
  to \<^verbatim>\<open>*args\<close> when the signature has one; then every keyword must name a parameter
  that has no value yet; then every parameter without a default must have a value.
  A signature lists its positional-or-keyword parameters and its keyword-only
  parameters, and of each kind those without a default.
  The first parameter of a classmethod (\<^verbatim>\<open>cls\<close>) is bound by the class and is left
  out of the signature.
\<close>

record py_signature =
  positional_or_keyword :: "string list"
  positional_required :: "string list"
  var_positional :: bool
  keyword_only :: "string list"
  keyword_only_required :: "string list"

fun bind_keywords :: "py_signature \<Rightarrow> string list \<Rightarrow> string list \<Rightarrow> error + unit" where
  "bind_keywords sg bound [] = Inr ()"
| "bind_keywords sg bound (k # ks) =
     (if k \<notin> set (positional_or_keyword sg) \<union> set (keyword_only sg)
      then Inl (TypeError (''got an unexpected keyword argument '' @ k))
      else if k \<in> set bound
      then Inl (TypeError (''got multiple values for argument '' @ k))
      else bind_keywords sg (k # bound) ks)"

definition bind_call :: "py_signature \<Rightarrow> nat \<Rightarrow> string list \<Rightarrow> error + unit" where
  "bind_call sg n_positional keywords =
     (case bind_keywords sg (take n_positional (positional_or_keyword sg)) keywords of
        Inl e \<Rightarrow> Inl e
      | Inr _ \<Rightarrow>
          if length (positional_or_keyword sg) < n_positional \<and> \<not> var_positional sg
          then Inl (TypeError ''too many positional arguments'')
          else if \<not> set (positional_required sg)
                     \<subseteq> set (take n_positional (positional_or_keyword sg)) \<union> set keywords
          then Inl (TypeError ''missing required positional argument'')
          else if \<not> set (keyword_only_required sg) \<subseteq> set keywords
          then Inl (TypeError ''missing required keyword-only argument'')
          else Inr ())"

text \<open>
  \<^verbatim>\<open>def from_values(cls, context_message, *values, leftover_name, delimiter=' ')\<close>
  of \<^verbatim>\<open>LeftoverArgumentWarning\<close>.
\<close>

definition from_values_signature :: py_signature where
  "from_values_signature =
     \<lparr>positional_or_keyword = [''context_message''],
      positional_required = [''context_message''],
      var_positional = True,
      keyword_only = [''leftover_name'', ''delimiter''],
      keyword_only_required = [''leftover_name'']\<rparr>"

text \<open>
  The one call of \<^verbatim>\<open>from_values\<close>, in \<^verbatim>\<open>_generate_unique_field_names\<close>:
  \<^verbatim>\<open>from_values([name], field_names, context_message='More field names than fields',
  leftover_name='field names')\<close>, two positional arguments and two keywords. When the
  call binds, the body (\<^verbatim>\<open>pass\<close>) returns \<^verbatim>\<open>None\<close>.
\<close>

definition leftover_from_values :: "error + pyval" where
  "leftover_from_values =
     (case bind_call from_values_signature 2 [''context_message'', ''leftover_name''] of
        Inl e \<Rightarrow> Inl e
      | Inr _ \<Rightarrow> Inr PNone)"

subsection \<open>The field-name resolver\<close>

text \<open>
  One pass of the loop body of \<^verbatim>\<open>_generate_unique_field_names\<close> for a position
  \<open>count\<close> at which a field is present. \<open>name\<close> is \<^verbatim>\<open>next(field_names, None)\<close>. The
  result is the name yielded, the warnings of this pass and the updated
  \<^verbatim>\<open>seen_names\<close>, or the error raised. At a reserved position, a candidate that is not
  empty and differs from the reserved name makes the source evaluate
  \<^verbatim>\<open>exceptions.HeaderFieldNameMismatchWarning(...)\<close> before it yields: the attribute
  lookup fails, as the module has no such class.
\<close>

definition generic_name :: "nat \<Rightarrow> string" where
  "generic_name count = ''Field'' @ str_nat count"

definition unique_field_name_at ::
  "nat \<Rightarrow> string option \<Rightarrow> (nat \<rightharpoonup> string) \<Rightarrow> string set
    \<Rightarrow> error + (string \<times> warning list \<times> string set)" where
  "unique_field_name_at count name indexes_reserved_names seen_names =
     (case indexes_reserved_names count of
        Some reserved_name \<Rightarrow>
          (case name of
             None \<Rightarrow> Inr (reserved_name, [], seen_names)
           | Some n \<Rightarrow>
               if n \<noteq> [] \<and> n \<noteq> reserved_name
               then Inl (AttributeError
                      ''module gaggle.exceptions has no attribute HeaderFieldNameMismatchWarning'')
               else Inr (reserved_name, [], seen_names))
      | None \<Rightarrow>
          (let duplicate = (case name of None \<Rightarrow> False | Some n \<Rightarrow> n \<in> seen_names);
               ws = (case name of
                       None \<Rightarrow> []
                     | Some n \<Rightarrow>
                         if n \<in> seen_names
                         then [DuplicateWarning ''field name'' n (generic_name count)] else []);
               name' = (if duplicate then None else name)
           in case name' of
                Some (c # cs) \<Rightarrow> Inr (c # cs, ws, insert (c # cs) seen_names)
              | _ \<Rightarrow>
                  if generic_name count \<in> seen_names
                  then Inl (ValueError ''Index-associated generic name duplicated.'')
                  else Inr (generic_name count, ws, insert (generic_name count) seen_names)))"

text \<open>
  The loop, from position \<open>count\<close> on. \<open>fields\<close> holds the values still to be named
  (none of them \<^verbatim>\<open>None\<close>). When the fields are exhausted and a name is left, the
  source builds its warning with \<^verbatim>\<open>LeftoverArgumentWarning.from_values\<close> and hands the
  result to \<^verbatim>\<open>warnings.warn\<close>. An exception leaves the generator before its decorator
  re-issues the recorded warnings, so an error carries none.
\<close>

fun generate_unique_field_names_loop ::
  "nat \<Rightarrow> string list \<Rightarrow> 'a list \<Rightarrow> (nat \<rightharpoonup> string) \<Rightarrow> string set
    \<Rightarrow> error + (string list \<times> warning list \<times> string set)" where
  "generate_unique_field_names_loop count field_names [] indexes_reserved_names seen_names =
     (case field_names of
        [] \<Rightarrow> Inr ([], [], seen_names)
      | name # rest \<Rightarrow>
          (case leftover_from_values of
             Inl e \<Rightarrow> Inl e
           | Inr _ \<Rightarrow> Inr ([], [UserWarning ''None''], seen_names)))"
| "generate_unique_field_names_loop count field_names (field # more_fields)
      indexes_reserved_names seen_names =
     (case unique_field_name_at count (case field_names of [] \<Rightarrow> None | n # _ \<Rightarrow> Some n)
             indexes_reserved_names seen_names of
        Inl e \<Rightarrow> Inl e
      | Inr (name, ws, seen_names') \<Rightarrow>
          (case generate_unique_field_names_loop (Suc count) (tl field_names) more_fields
                  indexes_reserved_names seen_names' of
             Inl e \<Rightarrow> Inl e
           | Inr (names, ws', seen_names'') \<Rightarrow> Inr (name # names, ws @ ws', seen_names'')))"

definition generate_unique_field_names ::
  "string list \<Rightarrow> 'a list \<Rightarrow> (nat \<rightharpoonup> string) \<Rightarrow> string set
    \<Rightarrow> error + (string list \<times> warning list \<times> string set)" where
  "generate_unique_field_names field_names field_values indexes_reserved_names seen_names =
     generate_unique_field_names_loop 0 field_names field_values indexes_reserved_names
       seen_names"

subsection \<open>Strings\<close>

text \<open>
  The characters \<^verbatim>\<open>str.isspace\<close> accepts in the 8-bit range; \<^verbatim>\<open>str.rstrip()\<close>
  strips them.
\<close>

definition py_isspace :: "char \<Rightarrow> bool" where
  "py_isspace c \<longleftrightarrow>
     c \<in> set [CHR 0x09, CHR 0x0A, CHR 0x0B, CHR 0x0C, CHR 0x0D, CHR 0x1C, CHR 0x1D, CHR 0x1E,
              CHR 0x1F, CHR 0x20, CHR 0x85, CHR 0xA0]"

definition rstrip :: "string \<Rightarrow> string" where
  "rstrip s = rev (dropWhile py_isspace (rev s))"

text \<open>
  \<^verbatim>\<open>int()\<close> skips whitespace around the number; of the characters above it does not
  take the four separators \<^verbatim>\<open>\x1c\<close> to \<^verbatim>\<open>\x1f\<close> for whitespace.
\<close>

definition int_isspace :: "char \<Rightarrow> bool" where
  "int_isspace c \<longleftrightarrow>
     c \<in> set [CHR 0x09, CHR 0x0A, CHR 0x0B, CHR 0x0C, CHR 0x0D, CHR 0x20, CHR 0x85, CHR 0xA0]"

definition strip :: "string \<Rightarrow> string" where
  "strip s = dropWhile int_isspace (rev (dropWhile int_isspace (rev s)))"

definition digit_value :: "char \<Rightarrow> nat option" where
  "digit_value c =
     map_of [(CHR ''0'', 0), (CHR ''1'', 1), (CHR ''2'', 2), (CHR ''3'', 3), (CHR ''4'', 4),
             (CHR ''5'', 5), (CHR ''6'', 6), (CHR ''7'', 7), (CHR ''8'', 8), (CHR ''9'', 9)] c"

text \<open>Decimal digits, with single underscores allowed between digits.\<close>

fun parse_digits :: "nat \<Rightarrow> string \<Rightarrow> nat option" where
  "parse_digits acc [] = None"
| "parse_digits acc (c # cs) =
     (case digit_value c of
        None \<Rightarrow> None
      | Some d \<Rightarrow>
          (case cs of
             [] \<Rightarrow> Some (10 * acc + d)
           | c' # cs' \<Rightarrow>
               if c' = CHR ''_'' then parse_digits (10 * acc + d) cs'
               else parse_digits (10 * acc + d) cs))"

text \<open>\<^verbatim>\<open>int(s)\<close> for a string; \<open>None\<close> stands for the \<^verbatim>\<open>ValueError\<close>.\<close>

definition py_int :: "string \<Rightarrow> int option" where
  "py_int s =
     (case strip s of
        [] \<Rightarrow> None
      | c # cs \<Rightarrow>
          if c = CHR ''-'' then map_option (\<lambda>n. - int n) (parse_digits 0 cs)
          else if c = CHR ''+'' then map_option int (parse_digits 0 cs)
          else map_option int (parse_digits 0 (c # cs)))"

text \<open>What an f-string writes for a value.\<close>

definition py_str :: "pyval \<Rightarrow> string" where
  "py_str v = (case v of PNone \<Rightarrow> ''None'' | PStr s \<Rightarrow> s | PInt i \<Rightarrow> str_int i)"

text \<open>\<^verbatim>\<open>s.split(sep)\<close> for a one-character separator.\<close>

fun split_on :: "char \<Rightarrow> string \<Rightarrow> string list" where
  "split_on sep [] = [[]]"
| "split_on sep (c # cs) =
     (if c = sep then [] # split_on sep cs
      else (case split_on sep cs of [] \<Rightarrow> [[c]] | p # ps \<Rightarrow> (c # p) # ps))"

text \<open>
  \<^verbatim>\<open>f.readline()\<close> on a text stream opened with \<^verbatim>\<open>newline=''\<close> (\<^verbatim>\<open>READ_PARAMS\<close>): a
  line ends after \<^verbatim>\<open>\n\<close>, \<^verbatim>\<open>\r\n\<close> or a lone \<^verbatim>\<open>\r\<close>, and the ending is kept. The
  result is the line and the rest of the stream.
\<close>

fun readline :: "string \<Rightarrow> string \<times> string" where
  "readline [] = ([], [])"
| "readline (c # cs) =
     (if c = CHR 0x0A then ([c], cs)
      else if c = CHR 0x0D then
        (case cs of
           [] \<Rightarrow> ([c], [])
         | c' # cs' \<Rightarrow> if c' = CHR 0x0A then ([c, c'], cs') else ([c], cs))
      else (case readline cs of (line, rest) \<Rightarrow> (c # line, rest)))"

lemma readline_rest_length: "length (snd (readline s)) \<le> length s"
proof (induction s rule: readline.induct)
  case 1
  then show ?case by simp
next
  case (2 c cs)
  show ?case
  proof (cases "c = CHR 0x0A")
    case True
    then show ?thesis by simp
  next
    case lf: False
    show ?thesis
    proof (cases "c = CHR 0x0D")
      case True
      then show ?thesis by (cases cs) simp_all
    next
      case False
      obtain line rest where r: "readline cs = (line, rest)" by (cases "readline cs")
      with 2 lf False have "length rest \<le> length cs" by simp
      with lf False r show ?thesis by simp
    qed
  qed
qed

subsection \<open>The header codec\<close>

type_synonym header = "(string \<times> pyval) list"

definition transform_integer_value :: "pyval \<Rightarrow> int \<Rightarrow> int \<Rightarrow> error + pyval" where
  "transform_integer_value v translation scale =
     (case v of
        PNone \<Rightarrow> Inl (TypeError ''int() argument must be a string or a number'')
      | PInt i \<Rightarrow> Inr (PInt ((i + translation) * scale))
      | PStr s \<Rightarrow>
          (case py_int s of
             None \<Rightarrow> Inr (PStr s)
           | Some i \<Rightarrow> Inr (PInt ((i + translation) * scale))))"

datatype ReformatDirection = ANKI_TO_GAGGLE | GAGGLE_TO_ANKI

definition ANKI_EXPORT_HEADER_MAPPING :: "(string \<times> string) list" where
  "ANKI_EXPORT_HEADER_MAPPING =
     [(''html'', ''has_html''), (''tags column'', ''tags_idx''),
      (''notetype column'', ''note_type_idx''), (''deck column'', ''deck_idx''),
      (''guid column'', ''guid_idx''), (''separator'', ''separator'')]"

definition ANKI_EXPORT_HEADER_MAPPING_REVERSE :: "(string \<times> string) list" where
  "ANKI_EXPORT_HEADER_MAPPING_REVERSE = map (\<lambda>(k, v). (v, k)) ANKI_EXPORT_HEADER_MAPPING"

definition ANKI_ORDERED_HEADER :: "string list" where
  "ANKI_ORDERED_HEADER =
     [''separator'', ''html'', ''guid column'', ''notetype column'', ''deck column'',
      ''tags column'']"

definition DIRECTION_TRANSLATION_VALUE :: "ReformatDirection \<Rightarrow> int" where
  "DIRECTION_TRANSLATION_VALUE d = (case d of ANKI_TO_GAGGLE \<Rightarrow> - 1 | GAGGLE_TO_ANKI \<Rightarrow> 1)"

definition DIRECTION_MAPPING :: "ReformatDirection \<Rightarrow> (string \<times> string) list" where
  "DIRECTION_MAPPING d =
     (case d of
        ANKI_TO_GAGGLE \<Rightarrow> ANKI_EXPORT_HEADER_MAPPING
      | GAGGLE_TO_ANKI \<Rightarrow> ANKI_EXPORT_HEADER_MAPPING_REVERSE)"

text \<open>
  The loop of \<^verbatim>\<open>reformat_header_settings\<close> over \<^verbatim>\<open>header.items()\<close>, filling
  \<^verbatim>\<open>reformatted_header\<close>. A setting outside the mapping is a \<^verbatim>\<open>KeyError\<close>.
\<close>

fun reformat_items ::
  "(string \<times> string) list \<Rightarrow> int \<Rightarrow> header \<Rightarrow> header \<Rightarrow> error + header" where
  "reformat_items reformat_mapping translation [] reformatted_header = Inr reformatted_header"
| "reformat_items reformat_mapping translation ((setting, v) # items) reformatted_header =
     (case map_of reformat_mapping setting of
        None \<Rightarrow> Inl (KeyError setting)
      | Some new_key \<Rightarrow>
          (case transform_integer_value v translation 1 of
             Inl e \<Rightarrow> Inl e
           | Inr new_value \<Rightarrow>
               reformat_items reformat_mapping translation items
                 (AList.update new_key new_value reformatted_header)))"

definition reformat_header_settings :: "header \<Rightarrow> ReformatDirection \<Rightarrow> error + header" where
  "reformat_header_settings hdr direction =
     reformat_items (DIRECTION_MAPPING direction) (DIRECTION_TRANSLATION_VALUE direction) hdr []"

text \<open>
  \<^verbatim>\<open>read_header_settings\<close>: while the next character is \<^verbatim>\<open>#\<close>, the rest of the line
  is split at \<^verbatim>\<open>:\<close> into exactly a setting and a value (anything else fails to
  unpack). The stream is left at the first line without the marker.
\<close>

function read_header_settings_loop :: "header \<Rightarrow> string \<Rightarrow> error + (header \<times> string)" where
  "read_header_settings_loop hdr [] = Inr (hdr, [])"
| "read_header_settings_loop hdr (c # cs) =
     (if c = CHR ''#'' then
        (case split_on (CHR '':'') (fst (readline cs)) of
           [setting, v] \<Rightarrow>
             (case transform_integer_value (PStr (rstrip v)) 0 1 of
                Inl e \<Rightarrow> Inl e
              | Inr v' \<Rightarrow>
                  read_header_settings_loop (AList.update setting v' hdr) (snd (readline cs)))
         | _ \<Rightarrow> Inl (ValueError ''wrong number of values to unpack''))
      else Inr (hdr, c # cs))"
  by pat_completeness auto

termination
  by (relation "measure (\<lambda>(hdr, s). length s)") (auto simp: readline_rest_length less_Suc_eq_le)

definition read_header_settings :: "string \<Rightarrow> error + (header \<times> string)" where
  "read_header_settings f = read_header_settings_loop [] f"

definition parse_header_settings :: "string \<Rightarrow> error + (header \<times> string)" where
  "parse_header_settings f =
     (case read_header_settings f of
        Inl e \<Rightarrow> Inl e
      | Inr (hdr, rest) \<Rightarrow>
          (case reformat_header_settings hdr ANKI_TO_GAGGLE of
             Inl e \<Rightarrow> Inl e
           | Inr hdr' \<Rightarrow> Inr (hdr', rest)))"

text \<open>
  \<^verbatim>\<open>AnkiDeck.write_header\<close>: the text written to the stream. A setting whose value in
  the reformatted copy is \<^verbatim>\<open>None\<close> or that is absent writes nothing.
\<close>

definition header_line :: "header \<Rightarrow> string \<Rightarrow> string" where
  "header_line header_copy setting_name =
     (case map_of header_copy setting_name of
        None \<Rightarrow> []
      | Some PNone \<Rightarrow> []
      | Some setting_value \<Rightarrow>
          ''#'' @ setting_name @ '':'' @ py_str setting_value @ [CHR 0x0A])"

definition write_header :: "header \<Rightarrow> error + string" where
  "write_header hdr =
     (case reformat_header_settings hdr GAGGLE_TO_ANKI of
        Inl e \<Rightarrow> Inl e
      | Inr header_copy \<Rightarrow> Inr (concat (map (header_line header_copy) ANKI_ORDERED_HEADER)))"

subsection \<open>Rows of the content\<close>

text \<open>Iterating the stream gives its lines, each as \<^const>\<open>readline\<close> returns it.\<close>

lemma readline_rest_less: "s \<noteq> [] \<Longrightarrow> length (snd (readline s)) < length s"
proof (cases s)
  case Nil
  assume "s \<noteq> []"
  with Nil show ?thesis by simp
next
  case (Cons c cs)
  have le: "length (snd (readline cs)) \<le> length cs" by (rule readline_rest_length)
  show ?thesis
  proof (cases "c = CHR 0x0A \<or> c = CHR 0x0D")
    case True
    with Cons show ?thesis by (cases cs) auto
  next
    case False
    obtain line rest where r: "readline cs = (line, rest)" by (cases "readline cs")
    with le have "length rest \<le> length cs" by simp
    with Cons False r show ?thesis by simp
  qed
qed

function file_lines :: "string \<Rightarrow> string list" where
  "file_lines [] = []"
| "file_lines (c # cs) = fst (readline (c # cs)) # file_lines (snd (readline (c # cs)))"
  by pat_completeness auto

termination
proof (relation "measure length")
  show "wf (measure length)" by simp
next
  fix c :: char and cs :: string
  have "length (snd (readline (c # cs))) < length (c # cs)"
    by (rule readline_rest_less) simp
  then show "(snd (readline (c # cs)), c # cs) \<in> measure length" by simp
qed

text \<open>
  \<^verbatim>\<open>csv.reader(f, dialect='excel-tab')\<close> of the standard library: delimiter tab, quote
  character \<^verbatim>\<open>"\<close> with doubling, no escape character, not strict. The parser keeps
  its state, the field being read and the fields of the record read so far. \<open>None\<close>
  as a character marks the end of a line.
\<close>

datatype csv_state =
  START_RECORD | START_FIELD | IN_FIELD | IN_QUOTED_FIELD | QUOTE_IN_QUOTED_FIELD | EAT_CRNL

record csv_parser =
  parser_state :: csv_state
  parser_field :: string
  parser_fields :: "string list"

definition field_limit :: nat where
  "field_limit = 131072"

definition parse_reset :: csv_parser where
  "parse_reset = \<lparr>parser_state = START_RECORD, parser_field = [], parser_fields = []\<rparr>"

definition parse_add_char :: "csv_parser \<Rightarrow> char \<Rightarrow> csv_state \<Rightarrow> error + csv_parser" where
  "parse_add_char p c st =
     (if field_limit \<le> length (parser_field p)
      then Inl (CsvError ''field larger than field limit'')
      else Inr (p\<lparr>parser_field := parser_field p @ [c], parser_state := st\<rparr>))"

definition parse_save_field :: "csv_parser \<Rightarrow> csv_state \<Rightarrow> csv_parser" where
  "parse_save_field p st =
     p\<lparr>parser_fields := parser_fields p @ [parser_field p], parser_field := [],
       parser_state := st\<rparr>"

definition is_newline_char :: "char \<Rightarrow> bool" where
  "is_newline_char c \<longleftrightarrow> c = CHR 0x0A \<or> c = CHR 0x0D"

definition start_field :: "csv_parser \<Rightarrow> char option \<Rightarrow> error + csv_parser" where
  "start_field p c =
     (case c of
        None \<Rightarrow> Inr (parse_save_field p START_RECORD)
      | Some ch \<Rightarrow>
          if is_newline_char ch then Inr (parse_save_field p EAT_CRNL)
          else if ch = CHR 0x22 then Inr (p\<lparr>parser_state := IN_QUOTED_FIELD\<rparr>)
          else if ch = CHR 0x09 then Inr (parse_save_field p START_FIELD)
          else parse_add_char p ch IN_FIELD)"

definition parse_process_char :: "csv_parser \<Rightarrow> char option \<Rightarrow> error + csv_parser" where
  "parse_process_char p c =
     (case parser_state p of
        START_RECORD \<Rightarrow>
          (case c of
             None \<Rightarrow> Inr p
           | Some ch \<Rightarrow>
               if is_newline_char ch then Inr (p\<lparr>parser_state := EAT_CRNL\<rparr>)
               else start_field p c)
      | START_FIELD \<Rightarrow> start_field p c
      | IN_FIELD \<Rightarrow>
          (case c of
             None \<Rightarrow> Inr (parse_save_field p START_RECORD)
           | Some ch \<Rightarrow>
               if is_newline_char ch then Inr (parse_save_field p EAT_CRNL)
               else if ch = CHR 0x09 then Inr (parse_save_field p START_FIELD)
               else parse_add_char p ch IN_FIELD)
      | IN_QUOTED_FIELD \<Rightarrow>
          (case c of
             None \<Rightarrow> Inr p
           | Some ch \<Rightarrow>
               if ch = CHR 0x22 then Inr (p\<lparr>parser_state := QUOTE_IN_QUOTED_FIELD\<rparr>)
               else parse_add_char p ch IN_QUOTED_FIELD)
      | QUOTE_IN_QUOTED_FIELD \<Rightarrow>
          (case c of
             None \<Rightarrow> Inr (parse_save_field p START_RECORD)
           | Some ch \<Rightarrow>
               if ch = CHR 0x22 then parse_add_char p ch IN_QUOTED_FIELD
               else if ch = CHR 0x09 then Inr (parse_save_field p START_FIELD)
               else if is_newline_char ch then Inr (parse_save_field p EAT_CRNL)
               else parse_add_char p ch IN_FIELD)
      | EAT_CRNL \<Rightarrow>
          (case c of
             None \<Rightarrow> Inr (p\<lparr>parser_state := START_RECORD\<rparr>)
           | Some ch \<Rightarrow>
               if is_newline_char ch then Inr p
               else Inl (CsvError ''new-line character seen in unquoted field'')))"

text \<open>The characters of one line, then the end-of-line mark.\<close>

fun parse_line :: "csv_parser \<Rightarrow> string \<Rightarrow> error + csv_parser" where
  "parse_line p [] = parse_process_char p None"
| "parse_line p (c # cs) =
     (case parse_process_char p (Some c) of Inl e \<Rightarrow> Inl e | Inr p' \<Rightarrow> parse_line p' cs)"

text \<open>
  The rows the reader yields from the given lines, and the error that ends the
  iteration if there is one. A record is complete when a line leaves the parser in
  \<open>START_RECORD\<close>; input that ends inside a record closes it.
\<close>

fun csv_reader_loop :: "csv_parser \<Rightarrow> string list \<Rightarrow> string list list \<times> error option" where
  "csv_reader_loop p [] =
     (if parser_field p \<noteq> [] \<or> parser_state p = IN_QUOTED_FIELD
      then ([parser_fields (parse_save_field p START_RECORD)], None)
      else ([], None))"
| "csv_reader_loop p (line # lines) =
     (case parse_line p line of
        Inl e \<Rightarrow> ([], Some e)
      | Inr p' \<Rightarrow>
          if parser_state p' = START_RECORD
          then (case csv_reader_loop parse_reset lines of
                  (rows, e) \<Rightarrow> (parser_fields p' # rows, e))
          else csv_reader_loop p' lines)"

definition csv_reader :: "string \<Rightarrow> string list list \<times> error option" where
  "csv_reader f = csv_reader_loop parse_reset (file_lines f)"

subsection \<open>Cards\<close>

text \<open>The attributes \<^verbatim>\<open>has_html\<close> and \<^verbatim>\<open>fields\<close> of an \<^verbatim>\<open>AnkiCard\<close>.\<close>

record AnkiCard =
  has_html :: bool
  card_fields :: "(string \<times> string) list"

definition AnkiCard_reserved_names :: "string list" where
  "AnkiCard_reserved_names = [''Tags'', ''Deck'', ''Note Type'', ''GUID'']"

definition parse_anki_header_bool :: "pyval \<Rightarrow> error + bool" where
  "parse_anki_header_bool bool_as_str =
     (if bool_as_str = PStr ''true'' then Inr True
      else if bool_as_str = PStr ''false'' then Inr False
      else Inl (ValueError ''Expected true or false''))"

text \<open>\<^verbatim>\<open>collections.OrderedDict\<close> of a sequence of pairs.\<close>

definition ordered_dict :: "('k \<times> 'v) list \<Rightarrow> ('k \<times> 'v) list" where
  "ordered_dict pairs = foldl (\<lambda>d (k, v). AList.update k v d) [] pairs"

text \<open>
  \<^verbatim>\<open>_generate_field_dict\<close>: \<^verbatim>\<open>zip(..., strict=True)\<close> of the resolver's names with the
  field values.
\<close>

definition generate_field_dict ::
  "string list \<Rightarrow> 'a list \<Rightarrow> (nat \<rightharpoonup> string) \<Rightarrow> string set
    \<Rightarrow> error + ((string \<times> 'a) list \<times> warning list)" where
  "generate_field_dict field_names field_values indexes_reserved_names seen_names =
     (case generate_unique_field_names field_names field_values indexes_reserved_names
             seen_names of
        Inl e \<Rightarrow> Inl e
      | Inr (names, ws, seen_names') \<Rightarrow>
          if length names \<noteq> length field_values
          then Inl (ValueError ''zip() arguments have different lengths'')
          else Inr (ordered_dict (zip names field_values), ws))"

text \<open>
  The dictionary comprehension of \<^verbatim>\<open>AnkiCard.__init__\<close>: each index that is not
  \<^verbatim>\<open>None\<close> is bound to its reserved name, a later binding of the same index replacing
  an earlier one.
\<close>

definition reserved_names_of :: "pyval list \<Rightarrow> (pyval \<times> string) list" where
  "reserved_names_of property_indexes =
     ordered_dict (filter (\<lambda>(index, name). index \<noteq> PNone)
                     (zip property_indexes AnkiCard_reserved_names))"

text \<open>\<^verbatim>\<open>indexes_reserved_names.get(count)\<close> for a position \<open>count\<close>.\<close>

definition get_reserved :: "(pyval \<times> string) list \<Rightarrow> nat \<rightharpoonup> string" where
  "get_reserved reserved_names count = map_of reserved_names (PInt (int count))"

definition AnkiCard_init ::
  "string list \<Rightarrow> string list option \<Rightarrow> pyval \<Rightarrow> pyval \<Rightarrow> pyval \<Rightarrow> pyval \<Rightarrow> pyval
    \<Rightarrow> error + (AnkiCard \<times> warning list)" where
  "AnkiCard_init field_values field_names has_html_arg tags_idx note_type_idx deck_idx guid_idx =
     (case parse_anki_header_bool has_html_arg of
        Inl e \<Rightarrow> Inl e
      | Inr b \<Rightarrow>
          (case generate_field_dict (case field_names of None \<Rightarrow> [] | Some ns \<Rightarrow> ns)
                  field_values
                  (get_reserved (reserved_names_of [tags_idx, deck_idx, note_type_idx, guid_idx]))
                  (set AnkiCard_reserved_names) of
             Inl e \<Rightarrow> Inl e
           | Inr (d, ws) \<Rightarrow> Inr (\<lparr>has_html = b, card_fields = d\<rparr>, ws)))"

text \<open>
  The call \<^verbatim>\<open>AnkiCard(card, field_names=field_names, **header)\<close> of
  \<^verbatim>\<open>create_cards_from_tsv\<close>: the settings of the header are the keyword arguments.
\<close>

definition AnkiCard_init_signature :: py_signature where
  "AnkiCard_init_signature =
     \<lparr>positional_or_keyword =
        [''fields'', ''field_names'', ''has_html'', ''tags_idx'', ''note_type_idx'', ''deck_idx'',
         ''guid_idx''],
      positional_required = [''fields''],
      var_positional = False,
      keyword_only = [],
      keyword_only_required = []\<rparr>"

definition keyword_argument :: "header \<Rightarrow> string \<Rightarrow> pyval \<Rightarrow> pyval" where
  "keyword_argument hdr k dflt = (case map_of hdr k of None \<Rightarrow> dflt | Some v \<Rightarrow> v)"

definition AnkiCard_from_header ::
  "string list \<Rightarrow> string list option \<Rightarrow> header \<Rightarrow> error + (AnkiCard \<times> warning list)" where
  "AnkiCard_from_header row field_names hdr =
     (case bind_call AnkiCard_init_signature 1 (''field_names'' # map fst hdr) of
        Inl e \<Rightarrow> Inl e
      | Inr _ \<Rightarrow>
          AnkiCard_init row field_names
            (keyword_argument hdr ''has_html'' (PStr ''false''))
            (keyword_argument hdr ''tags_idx'' PNone)
            (keyword_argument hdr ''note_type_idx'' PNone)
            (keyword_argument hdr ''deck_idx'' PNone)
            (keyword_argument hdr ''guid_idx'' PNone))"

subsection \<open>Decks\<close>

text \<open>
  The loop of \<^verbatim>\<open>create_cards_from_tsv\<close> over the rows of the reader; \<open>field_names\<close>
  is a sequence that every card iterates from its start.
\<close>

fun create_cards ::
  "string list list \<Rightarrow> string list option \<Rightarrow> header \<Rightarrow> error + (AnkiCard list \<times> warning list)"
  where
  "create_cards [] field_names hdr = Inr ([], [])"
| "create_cards (row # rows) field_names hdr =
     (case AnkiCard_from_header row field_names hdr of
        Inl e \<Rightarrow> Inl e
      | Inr (anki_card, ws) \<Rightarrow>
          (case create_cards rows field_names hdr of
             Inl e \<Rightarrow> Inl e
           | Inr (deck, ws') \<Rightarrow> Inr (anki_card # deck, ws @ ws')))"

definition create_cards_from_tsv ::
  "string \<Rightarrow> string list option \<Rightarrow> header option
    \<Rightarrow> error + (AnkiCard list \<times> warning list)" where
  "create_cards_from_tsv f field_names hdr =
     (case create_cards (fst (csv_reader f)) field_names
             (case hdr of None \<Rightarrow> [] | Some h \<Rightarrow> h) of
        Inl e \<Rightarrow> Inl e
      | Inr (deck, ws) \<Rightarrow>
          (case snd (csv_reader f) of Some e \<Rightarrow> Inl e | None \<Rightarrow> Inr (deck, ws)))"

text \<open>
  \<^verbatim>\<open>_parse_anki_export\<close> on the text of the exported file. Rows are read only under
  the separator \<^verbatim>\<open>tab\<close>; the separator is taken out of the header for the cards and
  put back afterwards.
\<close>

definition parse_anki_export ::
  "string \<Rightarrow> string list option \<Rightarrow> error + (header \<times> AnkiCard list \<times> warning list)" where
  "parse_anki_export exported_file field_names =
     (case parse_header_settings exported_file of
        Inl e \<Rightarrow> Inl e
      | Inr (hdr, f) \<Rightarrow>
          (case map_of hdr ''separator'' of
             None \<Rightarrow> Inl (KeyError ''separator'')
           | Some sep \<Rightarrow>
               if sep = PStr ''tab'' then
                 (case create_cards_from_tsv f field_names
                         (Some (AList.delete ''separator'' hdr)) of
                    Inl e \<Rightarrow> Inl e
                  | Inr (cards, ws) \<Rightarrow>
                      Inr (AList.update ''separator'' (PStr ''tab'')
                             (AList.delete ''separator'' hdr), cards, ws))
               else Inr (hdr, [], [])))"

subsection \<open>Values the header codec leaves alone\<close>

text \<open>
  A predicate for stating the round trip of a header, not a function of the source:
  a value is plain when it is an \<^verbatim>\<open>int\<close>, or a \<^verbatim>\<open>str\<close> that \<^verbatim>\<open>int()\<close> rejects, that
  \<^verbatim>\<open>rstrip()\<close> leaves unchanged and that holds neither the delimiter \<^verbatim>\<open>:\<close> nor a line
  break.
\<close>

definition plain_value :: "pyval \<Rightarrow> bool" where
  "plain_value v =
     (case v of
        PNone \<Rightarrow> False
      | PInt i \<Rightarrow> True
      | PStr s \<Rightarrow>
          py_int s = None \<and> rstrip s = s \<and> CHR '':'' \<notin> set s \<and> CHR 0x0A \<notin> set s \<and>
          CHR 0x0D \<notin> set s)"

section \<open>Properties\<close>

subsection \<open>Evaluation\<close>

lemmas resolver_defs =
  generate_unique_field_names_def unique_field_name_at_def generic_name_def str_nat.simps
  digit_char_def leftover_from_values_def bind_call_def from_values_signature_def
  AnkiCard_reserved_names_def

lemmas codec_defs =
  parse_header_settings_def read_header_settings_def reformat_header_settings_def
  transform_integer_value_def py_int_def strip_def rstrip_def py_isspace_def int_isspace_def
  digit_value_def
  DIRECTION_MAPPING_def DIRECTION_TRANSLATION_VALUE_def ANKI_EXPORT_HEADER_MAPPING_def
  ANKI_EXPORT_HEADER_MAPPING_REVERSE_def ANKI_ORDERED_HEADER_def write_header_def
  header_line_def py_str_def str_int_def

lemmas deck_defs =
  parse_anki_export_def create_cards_from_tsv_def csv_reader_def parse_reset_def
  parse_process_char_def start_field_def parse_add_char_def parse_save_field_def
  is_newline_char_def field_limit_def AnkiCard_from_header_def AnkiCard_init_def
  AnkiCard_init_signature_def keyword_argument_def parse_anki_header_bool_def
  generate_field_dict_def ordered_dict_def reserved_names_of_def get_reserved_def

subsection \<open>The resolver, step by step\<close>

lemma leftover_from_values_eq:
  "leftover_from_values = Inl (TypeError ''got multiple values for argument context_message'')"
  by (simp add: leftover_from_values_def bind_call_def from_values_signature_def)

lemma step_reserved:
  "res count = Some r \<Longrightarrow> unique_field_name_at count name res seen = Inr (n, ws, seen') \<Longrightarrow>
   n = r \<and> ws = [] \<and> seen' = seen"
  by (auto simp: unique_field_name_at_def split: option.splits if_splits)

lemma step_mismatch:
  "res count = Some r \<Longrightarrow> n \<noteq> [] \<Longrightarrow> n \<noteq> r \<Longrightarrow>
   unique_field_name_at count (Some n) res seen =
     Inl (AttributeError
            ''module gaggle.exceptions has no attribute HeaderFieldNameMismatchWarning'')"
  by (simp add: unique_field_name_at_def)

lemma step_fresh:
  "res count = None \<Longrightarrow> unique_field_name_at count name res seen = Inr (n, ws, seen') \<Longrightarrow>
   n \<notin> seen \<and> seen' = insert n seen \<and>
   ((name = Some n \<and> n \<noteq> []) \<or> n = generic_name count)"
  by (auto simp: unique_field_name_at_def Let_def split: option.splits list.splits if_splits)


lemma step_seen_mono:
  "unique_field_name_at count name res seen = Inr (n, ws, seen') \<Longrightarrow> seen \<subseteq> seen'"
  by (cases "res count") (auto dest: step_reserved step_fresh)

lemma loop_length:
  "generate_unique_field_names_loop count names fs res seen = Inr (out, ws, seen') \<Longrightarrow>
   length out = length fs"
proof (induction fs arbitrary: count names seen out ws seen')
  case Nil
  then show ?case by (simp add: leftover_from_values_eq split: list.splits)
next
  case (Cons f fs)
  then show ?case by (auto split: sum.splits prod.splits)
qed


lemma loop_names:
  "ran res \<subseteq> seen \<Longrightarrow> inj_on res (dom res) \<Longrightarrow>
   generate_unique_field_names_loop count names fs res seen = Inr (out, ws, seen') \<Longrightarrow>
   distinct out \<and> (\<forall>n \<in> set out. n \<notin> seen \<or> (\<exists>i \<ge> count. res i = Some n))"
proof (induction fs arbitrary: count names seen out ws seen')
  case Nil
  then show ?case by (simp add: leftover_from_values_eq split: list.splits)
next
  case (Cons f fs)
  let ?name = "case names of [] \<Rightarrow> None | n # _ \<Rightarrow> Some n"
  from Cons.prems(3) obtain n ws1 seen1 out' ws2 where
    step: "unique_field_name_at count ?name res seen = Inr (n, ws1, seen1)" and
    rest: "generate_unique_field_names_loop (Suc count) (tl names) fs res seen1
             = Inr (out', ws2, seen')" and
    out: "out = n # out'"
    by (auto split: sum.splits prod.splits)
  have mono: "seen \<subseteq> seen1" using step by (rule step_seen_mono)
  with Cons.prems(1) have ran1: "ran res \<subseteq> seen1" by blast
  from Cons.IH [OF ran1 Cons.prems(2) rest]
  have d: "distinct out'" and
    t: "\<forall>m \<in> set out'. m \<notin> seen1 \<or> (\<exists>i \<ge> Suc count. res i = Some m)" by simp_all
  show ?case
  proof (cases "res count")
    case None
    from step_fresh [OF None step] have fresh: "n \<notin> seen" and s1: "seen1 = insert n seen" by simp_all
    have "n \<notin> set out'"
    proof
      assume "n \<in> set out'"
      with t have "n \<notin> seen1 \<or> (\<exists>i \<ge> Suc count. res i = Some n)" by blast
      then show False
      proof
        assume "n \<notin> seen1" with s1 show False by simp
      next
        assume "\<exists>i \<ge> Suc count. res i = Some n"
        then obtain i where "res i = Some n" by blast
        then have "n \<in> ran res" by (auto simp: ran_def)
        with Cons.prems(1) fresh show False by blast
      qed
    qed
    moreover have "\<forall>m \<in> set out'. m \<notin> seen \<or> (\<exists>i \<ge> count. res i = Some m)"
      using t mono by (meson Suc_leD subsetD)
    ultimately show ?thesis using d out fresh by simp
  next
    case (Some r)
    from step_reserved [OF Some step] have nr: "n = r" and s1: "seen1 = seen" by simp_all
    have "n \<notin> set out'"
    proof
      assume "n \<in> set out'"
      with t have "n \<notin> seen1 \<or> (\<exists>i \<ge> Suc count. res i = Some n)" by blast
      then show False
      proof
        assume "n \<notin> seen1"
        moreover have "n \<in> ran res" using Some nr by (auto simp: ran_def)
        ultimately show False using Cons.prems(1) s1 by blast
      next
        assume "\<exists>i \<ge> Suc count. res i = Some n"
        then obtain i where i: "i \<ge> Suc count" "res i = Some n" by blast
        with Some nr have "res i = res count" by simp
        with Cons.prems(2) i Some have "i = count" by (auto simp: inj_on_def dom_def)
        with i show False by simp
      qed
    qed
    moreover have "\<forall>m \<in> set out'. m \<notin> seen \<or> (\<exists>i \<ge> count. res i = Some m)"
      using t s1 by (meson Suc_leD)
    moreover have "\<exists>i \<ge> count. res i = Some n" using Some nr by blast
    ultimately show ?thesis using d out by simp
  qed
qed

lemma loop_positions:
  "generate_unique_field_names_loop count names fs res seen = Inr (out, ws, seen') \<Longrightarrow>
   j < length out \<Longrightarrow>
   (case res (count + j) of
      Some r \<Rightarrow> out ! j = r
    | None \<Rightarrow>
        (j < length names \<and> out ! j = names ! j \<and> names ! j \<noteq> []) \<or>
        out ! j = generic_name (count + j))"
proof (induction fs arbitrary: count names seen out ws seen' j)
  case Nil
  then show ?case by (simp add: leftover_from_values_eq split: list.splits)
next
  case (Cons f fs)
  let ?name = "case names of [] \<Rightarrow> None | n # _ \<Rightarrow> Some n"
  from Cons.prems(1) obtain n ws1 seen1 out' ws2 where
    step: "unique_field_name_at count ?name res seen = Inr (n, ws1, seen1)" and
    rest: "generate_unique_field_names_loop (Suc count) (tl names) fs res seen1
             = Inr (out', ws2, seen')" and
    out: "out = n # out'"
    by (auto split: sum.splits prod.splits)
  show ?case
  proof (cases j)
    case 0
    show ?thesis
    proof (cases "res count")
      case None
      from step_fresh [OF None step]
      have "(?name = Some n \<and> n \<noteq> []) \<or> n = generic_name count" by simp
      with None 0 out show ?thesis by (cases names) auto
    next
      case (Some r)
      from step_reserved [OF Some step] Some 0 out show ?thesis by simp
    qed
  next
    case (Suc k)
    with Cons.prems(2) out have k: "k < length out'" by simp
    from Cons.IH [OF rest k] Suc out show ?thesis
      by (cases names) (auto split: option.splits)
  qed
qed

subsection \<open>Leftover names\<close>

text \<open>
  C7. The claim: when the fields are exhausted and a candidate name is left, the
  resolver stops and emits exactly one leftover-names warning listing the unconsumed
  names, so that the names \<^verbatim>\<open>["A", "B", "C"]\<close> for two fields give \<^verbatim>\<open>["A", "B"]\<close>
  and one warning listing \<^verbatim>\<open>["C"]\<close>. The source does not get that far: its call of
  \<^verbatim>\<open>LeftoverArgumentWarning.from_values\<close> passes \<^verbatim>\<open>context_message\<close> both as the first
  positional argument and as a keyword, which is a \<^verbatim>\<open>TypeError\<close>, so on this input the
  resolver raises after the second name instead of warning.
\<close>

theorem leftover_names_raise_type_error:
  "generate_unique_field_names [''A'', ''B'', ''C''] [''a'', ''b''] Map.empty
     (set AnkiCard_reserved_names)
   = Inl (TypeError ''got multiple values for argument context_message'')"
  by (simp add: resolver_defs)

subsection \<open>Unique names\<close>




subsection \<open>Reserved positions\<close>

text \<open>
  C2. The claim: at a position with a reserved name, a candidate that is not empty and
  differs from the reserved name makes the resolver yield the reserved name and emit
  exactly one header/field-name mismatch warning and no duplicate warning. The source
  does not get that far: to build the warning it evaluates
  \<^verbatim>\<open>exceptions.HeaderFieldNameMismatchWarning\<close>, a class that \<^verbatim>\<open>exceptions.py\<close> does not
  declare, so at every such position it raises \<^verbatim>\<open>AttributeError\<close> before the reserved
  name is yielded. The example of the spec, position 2 reserved for \<^verbatim>\<open>Deck\<close> with the
  candidate \<^verbatim>\<open>Foo\<close>, gives no name for position 2 and no warning.
\<close>

theorem reserved_mismatch_raises_attribute_error:
  "unique_field_name_at 2 (Some ''Foo'') [2 \<mapsto> ''Deck''] (set AnkiCard_reserved_names)
   = Inl (AttributeError
            ''module gaggle.exceptions has no attribute HeaderFieldNameMismatchWarning'') \<and>
   generate_unique_field_names ['''', '''', ''Foo''] [''a'', ''b'', ''c''] [2 \<mapsto> ''Deck'']
     (set AnkiCard_reserved_names)
   = Inl (AttributeError
            ''module gaggle.exceptions has no attribute HeaderFieldNameMismatchWarning'')"
  by (simp add: resolver_defs)

text \<open>The same at every reserved position, whatever follows and whatever was seen.\<close>

lemma reserved_mismatch_aborts:
  "res count = Some r \<Longrightarrow> n \<noteq> [] \<Longrightarrow> n \<noteq> r \<Longrightarrow>
   generate_unique_field_names_loop count (n # names) (field # more_fields) res seen =
     Inl (AttributeError
            ''module gaggle.exceptions has no attribute HeaderFieldNameMismatchWarning'')"
  by (simp add: step_mismatch)

subsection \<open>Duplicate names\<close>

text \<open>
  C3, as stated: at a position without a reserved name, a candidate already in
  \<^verbatim>\<open>seen_names\<close> is replaced by \<^verbatim>\<open>Field{count}\<close> with exactly one \<^verbatim>\<open>DuplicateWarning\<close>.
  When \<^verbatim>\<open>Field{count}\<close> is in \<^verbatim>\<open>seen_names\<close> too, the source raises and nothing is
  yielded for the position: the candidates \<^verbatim>\<open>["Field1", "Field1"]\<close> for two fields.
\<close>

theorem duplicate_name_counterexample:
  "unique_field_name_at 1 (Some ''Field1'') Map.empty
     (insert ''Field1'' (set AnkiCard_reserved_names))
   = Inl (ValueError ''Index-associated generic name duplicated.'') \<and>
   generate_unique_field_names [''Field1'', ''Field1''] [''a'', ''b''] Map.empty
     (set AnkiCard_reserved_names)
   = Inl (ValueError ''Index-associated generic name duplicated.'')"
  by (simp add: resolver_defs)

text \<open>
  C3, amended: at a position without a reserved name, a candidate already in
  \<^verbatim>\<open>seen_names\<close> is replaced by \<^verbatim>\<open>Field{count}\<close>, provided that name is not itself in
  \<^verbatim>\<open>seen_names\<close>, with exactly one \<^verbatim>\<open>DuplicateWarning\<close> carrying the duplicate and its
  replacement; and the candidates \<^verbatim>\<open>["Foo", "Foo"]\<close> for two fields, nothing reserved,
  resolve to \<^verbatim>\<open>["Foo", "Field1"]\<close> with exactly one \<^verbatim>\<open>DuplicateWarning\<close>.
\<close>

theorem duplicate_name_replaced:
  assumes "indexes_reserved_names count = None"
    and "name \<in> seen_names"
    and "generic_name count \<notin> seen_names"
  shows "unique_field_name_at count (Some name) indexes_reserved_names seen_names
           = Inr (generic_name count,
                  [DuplicateWarning ''field name'' name (generic_name count)],
                  insert (generic_name count) seen_names)
       \<and> generic_name count = ''Field'' @ str_nat count
       \<and> generate_unique_field_names [''Foo'', ''Foo''] [field0, field1] Map.empty
           (set AnkiCard_reserved_names)
           = Inr ([''Foo'', ''Field1''], [DuplicateWarning ''field name'' ''Foo'' ''Field1''],
                  insert ''Field1'' (insert ''Foo'' (set AnkiCard_reserved_names)))"
proof -
  have "unique_field_name_at count (Some name) indexes_reserved_names seen_names
           = Inr (generic_name count,
                  [DuplicateWarning ''field name'' name (generic_name count)],
                  insert (generic_name count) seen_names)"
    using assms by (simp add: unique_field_name_at_def)
  moreover have "generate_unique_field_names [''Foo'', ''Foo''] [field0, field1] Map.empty
           (set AnkiCard_reserved_names)
           = Inr ([''Foo'', ''Field1''], [DuplicateWarning ''field name'' ''Foo'' ''Field1''],
                  insert ''Field1'' (insert ''Foo'' (set AnkiCard_reserved_names)))"
    by (simp add: resolver_defs)
  ultimately show ?thesis by (simp add: generic_name_def)
qed

theorem duplicate_name_replaced_witness:
  "Map.empty (1::nat) = (None :: string option) \<and> ''Foo'' \<in> insert ''Foo'' (set AnkiCard_reserved_names) \<and>
   generic_name 1 \<notin> insert ''Foo'' (set AnkiCard_reserved_names) \<and>
   unique_field_name_at 1 (Some ''Foo'') Map.empty (insert ''Foo'' (set AnkiCard_reserved_names))
   = Inr (''Field1'', [DuplicateWarning ''field name'' ''Foo'' ''Field1''],
          insert ''Field1'' (insert ''Foo'' (set AnkiCard_reserved_names)))"
proof -
  have h1: "Map.empty (1::nat) = (None :: string option)" by simp
  have h2: "''Foo'' \<in> insert ''Foo'' (set AnkiCard_reserved_names)" by simp
  have g: "generic_name 1 = ''Field1''" by (simp add: resolver_defs)
  have h3: "generic_name 1 \<notin> insert ''Foo'' (set AnkiCard_reserved_names)"
    by (simp add: resolver_defs)
  have step: "unique_field_name_at 1 (Some ''Foo'') Map.empty
      (insert ''Foo'' (set AnkiCard_reserved_names))
    = Inr (generic_name 1, [DuplicateWarning ''field name'' ''Foo'' (generic_name 1)],
           insert (generic_name 1) (insert ''Foo'' (set AnkiCard_reserved_names)))"
    by (rule conjunct1, rule duplicate_name_replaced [OF h1 h2 h3])
  from h1 h2 h3 step [unfolded g] show ?thesis by blast
qed

subsection \<open>A taken generic name\<close>

text \<open>An error of the resolver ends the construction of the card and of the deck.\<close>

lemma resolver_error_aborts_card:
  "generate_unique_field_names (case field_names of None \<Rightarrow> [] | Some ns \<Rightarrow> ns) row
     (get_reserved (reserved_names_of [tags_idx, deck_idx, note_type_idx, guid_idx]))
     (set AnkiCard_reserved_names) = Inl e \<Longrightarrow>
   parse_anki_header_bool has_html_arg = Inr b \<Longrightarrow>
   AnkiCard_init row field_names has_html_arg tags_idx note_type_idx deck_idx guid_idx = Inl e"
  by (simp add: AnkiCard_init_def generate_field_dict_def)

lemma card_error_aborts_deck:
  "AnkiCard_from_header row field_names hdr = Inl e \<Longrightarrow>
   create_cards (row # rows) field_names hdr = Inl e"
  by simp

text \<open>
  C9: at a position without a reserved name, when the candidate is absent, empty or
  already in \<^verbatim>\<open>seen_names\<close> and \<^verbatim>\<open>Field{count}\<close> is in \<^verbatim>\<open>seen_names\<close>, the resolver
  raises a \<^verbatim>\<open>ValueError\<close>, which is an error and not one of the warnings; no name and
  no warning is returned, whatever fields follow.
\<close>

theorem generic_name_collision_is_fatal:
  assumes "indexes_reserved_names count = None"
    and "field_names = [] \<or> hd field_names = [] \<or> hd field_names \<in> seen_names"
    and "generic_name count \<in> seen_names"
  shows "generate_unique_field_names_loop count field_names (field # more_fields)
           indexes_reserved_names seen_names
         = Inl (ValueError ''Index-associated generic name duplicated.'')"
  using assms
  by (cases field_names) (auto simp: unique_field_name_at_def Let_def split: list.splits)

theorem generic_name_collision_is_fatal_witness:
  "Map.empty (1::nat) = (None :: string option) \<and>
   ([] = ([] :: string list) \<or> hd [] = ([] :: string)
      \<or> hd [] \<in> insert ''Field1'' (set AnkiCard_reserved_names)) \<and>
   generic_name 1 \<in> insert ''Field1'' (set AnkiCard_reserved_names) \<and>
   generate_unique_field_names_loop 1 [] [''b''] Map.empty
     (insert ''Field1'' (set AnkiCard_reserved_names))
   = Inl (ValueError ''Index-associated generic name duplicated.'') \<and>
   parse_anki_export (''#separator:tab'' @ [CHR 0x0A] @ ''a'' @ [CHR 0x09] @ ''b'')
     (Some [''Field1''])
   = Inl (ValueError ''Index-associated generic name duplicated.'')"
proof -
  have h1: "Map.empty (1::nat) = (None :: string option)" by simp
  have h2: "[] = ([] :: string list) \<or> hd [] = ([] :: string)
      \<or> hd [] \<in> insert ''Field1'' (set AnkiCard_reserved_names)" by simp
  have h3: "generic_name 1 \<in> insert ''Field1'' (set AnkiCard_reserved_names)"
    by (simp add: resolver_defs)
  have run: "parse_anki_export (''#separator:tab'' @ [CHR 0x0A] @ ''a'' @ [CHR 0x09] @ ''b'')
     (Some [''Field1''])
   = Inl (ValueError ''Index-associated generic name duplicated.'')"
    by (simp add: codec_defs deck_defs resolver_defs)
  from h1 h2 h3 run
    generic_name_collision_is_fatal [where indexes_reserved_names = Map.empty and count = 1
      and field_names = "[]" and field = "''b''" and more_fields = "[]", OF h1 h2 h3]
  show ?thesis by blast
qed

subsection \<open>Generic names\<close>

text \<open>
  C8: a name the resolver yields at a position \<open>j\<close> without a reserved name is the
  non-empty candidate of that position or \<^verbatim>\<open>Field{j}\<close>, numbered by the position and
  not by how many names were generated before; and the stream with the header lines
  \<^verbatim>\<open>#separator:tab\<close> and \<^verbatim>\<open>#guid column:1\<close> and the row \<^verbatim>\<open>a\tb\tc\<close> parses to one card
  with the fields \<^verbatim>\<open>GUID: a\<close>, \<^verbatim>\<open>Field1: b\<close>, \<^verbatim>\<open>Field2: c\<close>.
\<close>

theorem generic_names_follow_position:
  assumes "generate_unique_field_names field_names field_values indexes_reserved_names
             seen_names = Inr (names, ws, seen_names')"
    and "j < length field_values"
    and "indexes_reserved_names j = None"
  shows "((j < length field_names \<and> names ! j = field_names ! j \<and> field_names ! j \<noteq> [])
          \<or> names ! j = ''Field'' @ str_nat j)
       \<and> parse_anki_export
           (''#separator:tab'' @ [CHR 0x0A] @ ''#guid column:1'' @ [CHR 0x0A] @
            ''a'' @ [CHR 0x09] @ ''b'' @ [CHR 0x09] @ ''c'') None
         = Inr ([(''guid_idx'', PInt 0), (''separator'', PStr ''tab'')],
                [\<lparr>has_html = False,
                  card_fields = [(''GUID'', ''a''), (''Field1'', ''b''), (''Field2'', ''c'')]\<rparr>],
                [])"
proof -
  from assms(1) have run:
    "generate_unique_field_names_loop 0 field_names field_values indexes_reserved_names
       seen_names = Inr (names, ws, seen_names')"
    by (simp add: generate_unique_field_names_def)
  from loop_length [OF run] assms(2) have j: "j < length names" by simp
  from loop_positions [OF run j] assms(3)
  have "(j < length field_names \<and> names ! j = field_names ! j \<and> field_names ! j \<noteq> [])
          \<or> names ! j = ''Field'' @ str_nat j"
    by (simp add: generic_name_def)
  moreover have "parse_anki_export
           (''#separator:tab'' @ [CHR 0x0A] @ ''#guid column:1'' @ [CHR 0x0A] @
            ''a'' @ [CHR 0x09] @ ''b'' @ [CHR 0x09] @ ''c'') None
         = Inr ([(''guid_idx'', PInt 0), (''separator'', PStr ''tab'')],
                [\<lparr>has_html = False,
                  card_fields = [(''GUID'', ''a''), (''Field1'', ''b''), (''Field2'', ''c'')]\<rparr>],
                [])"
    by (simp add: codec_defs deck_defs resolver_defs)
  ultimately show ?thesis by blast
qed

theorem generic_names_follow_position_witness:
  "generate_unique_field_names ['''', ''Front''] [''a'', ''b'', ''c''] [(0::nat) \<mapsto> ''GUID'']
     (set AnkiCard_reserved_names)
   = Inr ([''GUID'', ''Front'', ''Field2''], [],
          insert ''Field2'' (insert ''Front'' (set AnkiCard_reserved_names))) \<and>
   (2::nat) < length [''a'', ''b'', ''c''] \<and>
   [(0::nat) \<mapsto> ''GUID''] 2 = None \<and>
   [''GUID'', ''Front'', ''Field2''] ! 2 = ''Field'' @ str_nat 2"
proof -
  have run: "generate_unique_field_names ['''', ''Front''] [''a'', ''b'', ''c'']
     [(0::nat) \<mapsto> ''GUID''] (set AnkiCard_reserved_names)
   = Inr ([''GUID'', ''Front'', ''Field2''], [],
          insert ''Field2'' (insert ''Front'' (set AnkiCard_reserved_names)))"
    by (simp add: resolver_defs)
  have h2: "(2::nat) < length [''a'', ''b'', ''c'']" by simp
  have h3: "[(0::nat) \<mapsto> ''GUID''] 2 = None" by simp
  have "((2::nat) < length ['''', ''Front''] \<and>
          [''GUID'', ''Front'', ''Field2''] ! 2 = ['''', ''Front''] ! 2 \<and>
          ['''', ''Front''] ! 2 \<noteq> [])
        \<or> [''GUID'', ''Front'', ''Field2''] ! 2 = ''Field'' @ str_nat 2"
    by (rule conjunct1,
        rule generic_names_follow_position [where indexes_reserved_names = "[0 \<mapsto> ''GUID'']"
          and j = 2, OF run h2 h3])
  then have "[''GUID'', ''Front'', ''Field2''] ! 2 = ''Field'' @ str_nat 2" by simp
  with run h2 h3 show ?thesis by blast
qed

subsection \<open>Dictionaries built from pairs\<close>

lemma update_fresh: "k \<notin> fst ` set al \<Longrightarrow> AList.update k v al = al @ [(k, v)]"
  by (induction al) auto

lemma foldl_update_distinct:
  "distinct (map fst ps) \<Longrightarrow> fst ` set ps \<inter> fst ` set acc = {} \<Longrightarrow>
   foldl (\<lambda>d (k, v). AList.update k v d) acc ps = acc @ ps"
proof (induction ps arbitrary: acc)
  case Nil
  then show ?case by simp
next
  case (Cons p ps)
  obtain k v where p: "p = (k, v)" by (cases p)
  from Cons.prems p have fresh: "k \<notin> fst ` set acc" by auto
  have "fst ` set ps \<inter> fst ` set (acc @ [(k, v)]) = {}"
    using Cons.prems p by auto
  with Cons.IH [of "acc @ [(k, v)]"] Cons.prems p fresh show ?case
    by (simp add: update_fresh)
qed

lemma ordered_dict_distinct: "distinct (map fst ps) \<Longrightarrow> ordered_dict ps = ps"
  using foldl_update_distinct [of ps "[]"] by (simp add: ordered_dict_def)

lemma map_of_foldl_update:
  "map_of (foldl (\<lambda>d (k, v). AList.update k v d) acc ps) k = Some v \<Longrightarrow>
   (k, v) \<in> set ps \<or> map_of acc k = Some v"
proof (induction ps arbitrary: acc)
  case Nil
  then show ?case by simp
next
  case (Cons p ps)
  obtain k' v' where p: "p = (k', v')" by (cases p)
  from Cons.prems p have
    "map_of (foldl (\<lambda>d (k, v). AList.update k v d) (AList.update k' v' acc) ps) k = Some v"
    by simp
  from Cons.IH [OF this] have "(k, v) \<in> set ps \<or> map_of (AList.update k' v' acc) k = Some v" .
  then show ?case using p by (auto simp: update_conv' split: if_splits)
qed

lemma zip_right_unique:
  "distinct ys \<Longrightarrow> (a, y) \<in> set (zip xs ys) \<Longrightarrow> (b, y) \<in> set (zip xs ys) \<Longrightarrow> a = b"
  by (auto simp: in_set_zip nth_eq_iff_index_eq)

subsection \<open>One resolution per row\<close>

text \<open>
  The reserved mapping of \<^verbatim>\<open>AnkiCard.__init__\<close> binds only reserved names, each to
  at most one position.
\<close>

lemma reserved_lookup:
  "get_reserved (reserved_names_of idxs) i = Some n \<Longrightarrow>
   (PInt (int i), n) \<in> set (zip idxs AnkiCard_reserved_names)"
  by (auto simp: get_reserved_def reserved_names_of_def ordered_dict_def
      dest!: map_of_foldl_update)

lemma reserved_ran:
  "ran (get_reserved (reserved_names_of idxs)) \<subseteq> set AnkiCard_reserved_names"
  by (auto simp: ran_def dest!: reserved_lookup set_zip_rightD)

lemma reserved_inj:
  "inj_on (get_reserved (reserved_names_of idxs)) (dom (get_reserved (reserved_names_of idxs)))"
proof (rule inj_onI)
  fix i j
  assume i: "i \<in> dom (get_reserved (reserved_names_of idxs))"
    and eq: "get_reserved (reserved_names_of idxs) i = get_reserved (reserved_names_of idxs) j"
  from i obtain n where n: "get_reserved (reserved_names_of idxs) i = Some n" by auto
  with eq have m: "get_reserved (reserved_names_of idxs) j = Some n" by simp
  have d: "distinct AnkiCard_reserved_names" by (simp add: AnkiCard_reserved_names_def)
  from zip_right_unique [OF d reserved_lookup [OF n] reserved_lookup [OF m]]
  show "i = j" by simp
qed

lemma AnkiCard_init_fields:
  assumes "AnkiCard_init row field_names has_html_arg tags_idx note_type_idx deck_idx guid_idx
             = Inr (c, ws)"
  shows "\<exists>names seen'.
           generate_unique_field_names (case field_names of None \<Rightarrow> [] | Some ns \<Rightarrow> ns) row
             (get_reserved (reserved_names_of [tags_idx, deck_idx, note_type_idx, guid_idx]))
             (set AnkiCard_reserved_names) = Inr (names, ws, seen') \<and>
           length names = length row \<and> distinct names \<and> card_fields c = zip names row"
proof -
  let ?res = "get_reserved (reserved_names_of [tags_idx, deck_idx, note_type_idx, guid_idx])"
  let ?fn = "case field_names of None \<Rightarrow> [] | Some ns \<Rightarrow> ns"
  from assms obtain names seen' where
    run: "generate_unique_field_names ?fn row ?res (set AnkiCard_reserved_names)
            = Inr (names, ws, seen')" and
    c: "card_fields c = ordered_dict (zip names row)"
    by (auto simp: AnkiCard_init_def generate_field_dict_def
        split: sum.splits prod.splits if_splits)
  from run have loop:
    "generate_unique_field_names_loop 0 ?fn row ?res (set AnkiCard_reserved_names)
       = Inr (names, ws, seen')"
    by (simp add: generate_unique_field_names_def)
  have len: "length names = length row" using loop by (rule loop_length)
  have d: "distinct names" using loop_names [OF reserved_ran reserved_inj loop] by simp
  from len d have "distinct (map fst (zip names row))" by simp
  then have "ordered_dict (zip names row) = zip names row" by (rule ordered_dict_distinct)
  with run len d c show ?thesis by simp
qed

lemma create_cards_nth:
  "create_cards rows field_names hdr = Inr (deck, ws) \<Longrightarrow>
   length deck = length rows \<and>
   (\<forall>i < length rows. \<exists>ws_i. AnkiCard_from_header (rows ! i) field_names hdr
       = Inr (deck ! i, ws_i))"
proof (induction rows arbitrary: deck ws)
  case Nil
  then show ?case by simp
next
  case (Cons row rows)
  from Cons.prems obtain c ws1 deck' ws2 where
    c: "AnkiCard_from_header row field_names hdr = Inr (c, ws1)" and
    rest: "create_cards rows field_names hdr = Inr (deck', ws2)" and
    deck: "deck = c # deck'"
    by (auto split: sum.splits prod.splits)
  from Cons.IH [OF rest] c deck show ?case
    by (auto simp: nth_Cons split: nat.splits)
qed

text \<open>
  C6, as stated: one \<^verbatim>\<open>seen_names\<close> set is shared by the resolution of all rows of a
  deck, so that resolved names are unique across the cards of the deck. In the source
  \<^verbatim>\<open>AnkiCard.__init__\<close> builds \<^verbatim>\<open>set(AnkiCard._reserved_names)\<close> anew for every card:
  two rows without candidate names both get the name \<^verbatim>\<open>Field0\<close>, where a shared set
  would make the second row fail.
\<close>

theorem shared_context_counterexample:
  "parse_anki_export (''#separator:tab'' @ [CHR 0x0A] @ ''a'' @ [CHR 0x0A] @ ''b'' @ [CHR 0x0A])
     None
   = Inr ([(''separator'', PStr ''tab'')],
          [\<lparr>has_html = False, card_fields = [(''Field0'', ''a'')]\<rparr>,
           \<lparr>has_html = False, card_fields = [(''Field0'', ''b'')]\<rparr>],
          [])"
  by (simp add: codec_defs deck_defs resolver_defs)

text \<open>
  C6, amended: when the cards of a deck are built, every row is resolved on its own,
  by a run of the resolver that starts from a \<^verbatim>\<open>seen_names\<close> holding exactly the four
  reserved names, with the same candidate names and the same reserved positions for
  every row; the names of each card are pairwise distinct, and every field of the row
  is kept under its name. Uniqueness holds within each card, not across the deck.
\<close>

theorem rows_resolved_one_by_one:
  assumes "create_cards rows field_names hdr = Inr (deck, ws)"
    and "i < length rows"
  shows "length deck = length rows \<and>
    (\<exists>names ws_i seen_names'.
       generate_unique_field_names (case field_names of None \<Rightarrow> [] | Some ns \<Rightarrow> ns) (rows ! i)
         (get_reserved (reserved_names_of
            [keyword_argument hdr ''tags_idx'' PNone, keyword_argument hdr ''deck_idx'' PNone,
             keyword_argument hdr ''note_type_idx'' PNone,
             keyword_argument hdr ''guid_idx'' PNone]))
         (set AnkiCard_reserved_names) = Inr (names, ws_i, seen_names') \<and>
       distinct names \<and>
       card_fields (deck ! i) = zip names (rows ! i))"
proof -
  from create_cards_nth [OF assms(1)] assms(2) obtain ws_i where
    len: "length deck = length rows" and
    c: "AnkiCard_from_header (rows ! i) field_names hdr = Inr (deck ! i, ws_i)"
    by blast
  from c have "AnkiCard_init (rows ! i) field_names
      (keyword_argument hdr ''has_html'' (PStr ''false''))
      (keyword_argument hdr ''tags_idx'' PNone) (keyword_argument hdr ''note_type_idx'' PNone)
      (keyword_argument hdr ''deck_idx'' PNone) (keyword_argument hdr ''guid_idx'' PNone)
    = Inr (deck ! i, ws_i)"
    by (simp add: AnkiCard_from_header_def split: sum.splits)
  from AnkiCard_init_fields [OF this] len show ?thesis by blast
qed

theorem rows_resolved_one_by_one_witness:
  "create_cards [[''a''], [''b'']] None []
     = Inr ([\<lparr>has_html = False, card_fields = [(''Field0'', ''a'')]\<rparr>,
             \<lparr>has_html = False, card_fields = [(''Field0'', ''b'')]\<rparr>], []) \<and>
   (1::nat) < length [[''a''], [''b'']] \<and>
   length [\<lparr>has_html = False, card_fields = [(''Field0'', ''a'')]\<rparr>,
           \<lparr>has_html = False, card_fields = [(''Field0'', ''b'')]\<rparr>]
     = length [[''a''], [''b'']] \<and>
   generate_unique_field_names [] [''b'']
     (get_reserved (reserved_names_of [PNone, PNone, PNone, PNone]))
     (set AnkiCard_reserved_names)
     = Inr ([''Field0''], [], insert ''Field0'' (set AnkiCard_reserved_names)) \<and>
   card_fields ([\<lparr>has_html = False, card_fields = [(''Field0'', ''a'')]\<rparr>,
                 \<lparr>has_html = False, card_fields = [(''Field0'', ''b'')]\<rparr>] ! 1)
     = zip [''Field0''] ([[''a''], [''b'']] ! 1)"
proof -
  have run: "create_cards [[''a''], [''b'']] None []
     = Inr ([\<lparr>has_html = False, card_fields = [(''Field0'', ''a'')]\<rparr>,
             \<lparr>has_html = False, card_fields = [(''Field0'', ''b'')]\<rparr>], [])"
    by (simp add: deck_defs resolver_defs bind_call_def)
  have h2: "(1::nat) < length [[''a''], [''b'']]" by simp
  have len: "length [\<lparr>has_html = False, card_fields = [(''Field0'', ''a'')]\<rparr>,
           \<lparr>has_html = False, card_fields = [(''Field0'', ''b'')]\<rparr>]
     = length [[''a''], [''b'']]"
    by (rule conjunct1, rule rows_resolved_one_by_one [OF run h2])
  have res: "generate_unique_field_names [] [''b'']
     (get_reserved (reserved_names_of [PNone, PNone, PNone, PNone]))
     (set AnkiCard_reserved_names)
     = Inr ([''Field0''], [], insert ''Field0'' (set AnkiCard_reserved_names))"
    by (simp add: deck_defs resolver_defs)
  have z: "card_fields ([\<lparr>has_html = False, card_fields = [(''Field0'', ''a'')]\<rparr>,
                 \<lparr>has_html = False, card_fields = [(''Field0'', ''b'')]\<rparr>] ! 1)
     = zip [''Field0''] ([[''a''], [''b'']] ! 1)"
    by simp
  from run h2 len res z show ?thesis by blast
qed

subsection \<open>Separators other than tab\<close>

text \<open>
  C5, as stated: a header that declares a separator other than \<^verbatim>\<open>tab\<close> makes the parse
  of the deck fail. The source guards the reading of the rows with
  \<^verbatim>\<open>if header[separator] == 'tab'\<close> and has no other branch: it returns the header and
  an empty list of cards.
\<close>

theorem other_separator_counterexample:
  "parse_anki_export (''#separator:comma'' @ [CHR 0x0A] @ ''a,b'' @ [CHR 0x0A]) None
   = Inr ([(''separator'', PStr ''comma'')], [], [])"
  by (simp add: codec_defs deck_defs)

text \<open>
  C5, amended: when the header parses and declares a separator other than \<^verbatim>\<open>tab\<close>,
  parsing the deck succeeds and returns the header as parsed and no cards; the rows
  are not read and no warning is issued.
\<close>

theorem other_separator_reads_no_rows:
  assumes "parse_header_settings exported_file = Inr (hdr, f)"
    and "map_of hdr ''separator'' = Some sep"
    and "sep \<noteq> PStr ''tab''"
  shows "parse_anki_export exported_file field_names = Inr (hdr, [], [])"
  using assms by (simp add: parse_anki_export_def)

theorem other_separator_reads_no_rows_witness:
  "parse_header_settings (''#separator:comma'' @ [CHR 0x0A] @ ''a,b'' @ [CHR 0x0A])
     = Inr ([(''separator'', PStr ''comma'')], ''a,b'' @ [CHR 0x0A]) \<and>
   map_of [(''separator'', PStr ''comma'')] ''separator'' = Some (PStr ''comma'') \<and>
   PStr ''comma'' \<noteq> PStr ''tab'' \<and>
   parse_anki_export (''#separator:comma'' @ [CHR 0x0A] @ ''a,b'' @ [CHR 0x0A])
     (Some [''x'', ''y''])
     = Inr ([(''separator'', PStr ''comma'')], [], [])"
proof -
  have h1: "parse_header_settings (''#separator:comma'' @ [CHR 0x0A] @ ''a,b'' @ [CHR 0x0A])
     = Inr ([(''separator'', PStr ''comma'')], ''a,b'' @ [CHR 0x0A])"
    by (simp add: codec_defs)
  have h2: "map_of [(''separator'', PStr ''comma'')] ''separator'' = Some (PStr ''comma'')"
    by simp
  have h3: "PStr ''comma'' \<noteq> PStr ''tab''" by simp
  from h1 h2 h3 other_separator_reads_no_rows [OF h1 h2 h3] show ?thesis by blast
qed

subsection \<open>The html setting\<close>

text \<open>
  The keys of a parsed header are distinct internal names, so they bind as keyword
  arguments of \<^verbatim>\<open>AnkiCard.__init__\<close> once the separator is taken out.
\<close>

lemma bind_keywords_ok:
  "distinct ks \<Longrightarrow> set ks \<subseteq> set (positional_or_keyword sg) \<union> set (keyword_only sg) \<Longrightarrow>
   set ks \<inter> set bound = {} \<Longrightarrow> bind_keywords sg bound ks = Inr ()"
proof (induction ks arbitrary: bound)
  case Nil
  then show ?case by simp
next
  case (Cons k ks)
  from Cons.prems have "set ks \<inter> set (k # bound) = {}" by auto
  with Cons.IH [of "k # bound"] Cons.prems show ?case by auto
qed

lemma reformat_items_keys:
  "reformat_items m t items acc = Inr h \<Longrightarrow> distinct (map fst acc) \<Longrightarrow>
   fst ` set acc \<subseteq> snd ` set m \<Longrightarrow>
   distinct (map fst h) \<and> fst ` set h \<subseteq> snd ` set m"
proof (induction items arbitrary: acc)
  case Nil
  then show ?case by simp
next
  case (Cons item items)
  obtain setting v where item: "item = (setting, v)" by (cases item)
  from Cons.prems(1) item obtain new_key new_value where
    k: "map_of m setting = Some new_key" and
    rest: "reformat_items m t items (AList.update new_key new_value acc) = Inr h"
    by (auto split: option.splits sum.splits)
  from k have "(setting, new_key) \<in> set m" by (rule map_of_SomeD)
  then have "new_key \<in> snd ` set m" by force
  with Cons.prems(3) have "fst ` set (AList.update new_key new_value acc) \<subseteq> snd ` set m"
    by (simp add: dom_update)
  moreover have "distinct (map fst (AList.update new_key new_value acc))"
    using Cons.prems(2) by (rule distinct_update)
  ultimately show ?case using Cons.IH [OF rest] by blast
qed

lemma parsed_header_keys:
  assumes "parse_header_settings s = Inr (hdr, f)"
  shows "distinct (map fst hdr) \<and>
         fst ` set hdr \<subseteq> {''has_html'', ''tags_idx'', ''note_type_idx'', ''deck_idx'',
                              ''guid_idx'', ''separator''}"
proof -
  from assms obtain raw where
    "reformat_items ANKI_EXPORT_HEADER_MAPPING (- 1) raw [] = Inr hdr"
    by (auto simp: parse_header_settings_def reformat_header_settings_def DIRECTION_MAPPING_def
        DIRECTION_TRANSLATION_VALUE_def split: sum.splits prod.splits)
  from reformat_items_keys [OF this] show ?thesis
    by (auto simp: ANKI_EXPORT_HEADER_MAPPING_def)
qed

lemma bind_parsed_header:
  assumes "parse_header_settings s = Inr (hdr, f)"
  shows "bind_call AnkiCard_init_signature 1
           (''field_names'' # map fst (AList.delete ''separator'' hdr)) = Inr ()"
proof -
  let ?ks = "map fst (AList.delete ''separator'' hdr)"
  from parsed_header_keys [OF assms] have d: "distinct (map fst hdr)" and
    sub: "fst ` set hdr \<subseteq> {''has_html'', ''tags_idx'', ''note_type_idx'', ''deck_idx'',
                              ''guid_idx'', ''separator''}" by simp_all
  have d': "distinct ?ks" using d by (rule distinct_delete)
  have sub': "set ?ks \<subseteq> {''has_html'', ''tags_idx'', ''note_type_idx'', ''deck_idx'',
                              ''guid_idx''}"
    using sub by (auto simp: delete_keys)
  have "bind_keywords AnkiCard_init_signature [''fields''] (''field_names'' # ?ks) = Inr ()"
  proof (rule bind_keywords_ok)
    show "distinct (''field_names'' # ?ks)" using d' sub' by auto
    show "set (''field_names'' # ?ks) \<subseteq> set (positional_or_keyword AnkiCard_init_signature)
            \<union> set (keyword_only AnkiCard_init_signature)"
      using sub' by (auto simp: AnkiCard_init_signature_def)
    show "set (''field_names'' # ?ks) \<inter> set [''fields''] = {}" using sub' by auto
  qed
  then show ?thesis
    by (simp add: bind_call_def AnkiCard_init_signature_def)
qed

text \<open>
  C10, as stated: a \<^verbatim>\<open>has_html\<close> argument other than the strings \<^verbatim>\<open>true\<close> and
  \<^verbatim>\<open>false\<close> makes the construction of a card raise \<^verbatim>\<open>ValueError\<close>, so a deck parse
  with any other html value fails; without the setting the card has \<^verbatim>\<open>has_html\<close>
  false. The value is checked only when a card is constructed: a deck without rows
  parses with the html value \<^verbatim>\<open>1\<close> (read as the integer 1, stored as 0).
\<close>

theorem has_html_counterexample:
  "parse_anki_export (''#separator:tab'' @ [CHR 0x0A] @ ''#html:1'' @ [CHR 0x0A]) None
   = Inr ([(''has_html'', PInt 0), (''separator'', PStr ''tab'')], [], [])"
  by (simp add: codec_defs deck_defs)

text \<open>
  C10, amended: (1) the construction of a card raises \<^verbatim>\<open>ValueError\<close> whenever the
  \<^verbatim>\<open>has_html\<close> argument is not the string \<^verbatim>\<open>true\<close> or \<^verbatim>\<open>false\<close>; (2) so a deck parse
  whose header has the separator \<^verbatim>\<open>tab\<close> and any other html value, and whose content
  has at least one row, fails with that \<^verbatim>\<open>ValueError\<close>; (3) when the html setting is
  absent, a card that is constructed has \<^verbatim>\<open>has_html\<close> false.
\<close>

theorem has_html_must_be_true_or_false:
  "(has_html_arg \<noteq> PStr ''true'' \<and> has_html_arg \<noteq> PStr ''false'' \<longrightarrow>
      AnkiCard_init row field_names has_html_arg tags_idx note_type_idx deck_idx guid_idx
        = Inl (ValueError ''Expected true or false'')) \<and>
   (parse_header_settings exported_file = Inr (hdr, f) \<and>
    map_of hdr ''separator'' = Some (PStr ''tab'') \<and>
    map_of hdr ''has_html'' = Some v \<and> v \<noteq> PStr ''true'' \<and> v \<noteq> PStr ''false'' \<and>
    fst (csv_reader f) \<noteq> [] \<longrightarrow>
      parse_anki_export exported_file field_names = Inl (ValueError ''Expected true or false'')) \<and>
   (map_of hdr' ''has_html'' = None \<and>
    AnkiCard_from_header row field_names hdr' = Inr (c, ws) \<longrightarrow> has_html c = False)"
proof (intro conjI impI)
  assume "has_html_arg \<noteq> PStr ''true'' \<and> has_html_arg \<noteq> PStr ''false''"
  then show "AnkiCard_init row field_names has_html_arg tags_idx note_type_idx deck_idx guid_idx
        = Inl (ValueError ''Expected true or false'')"
    by (simp add: AnkiCard_init_def parse_anki_header_bool_def)
next
  assume a: "parse_header_settings exported_file = Inr (hdr, f) \<and>
    map_of hdr ''separator'' = Some (PStr ''tab'') \<and>
    map_of hdr ''has_html'' = Some v \<and> v \<noteq> PStr ''true'' \<and> v \<noteq> PStr ''false'' \<and>
    fst (csv_reader f) \<noteq> []"
  then obtain r rs where rows: "fst (csv_reader f) = r # rs" by (cases "fst (csv_reader f)") auto
  from a have p: "parse_header_settings exported_file = Inr (hdr, f)" by simp
  have kw: "keyword_argument (AList.delete ''separator'' hdr) ''has_html'' (PStr ''false'') = v"
    using a by (simp add: keyword_argument_def)
  have b: "bind_call AnkiCard_init_signature 1
           (''field_names'' # map fst (AList.delete ''separator'' hdr)) = Inr ()"
    using p by (rule bind_parsed_header)
  have init: "AnkiCard_init r field_names v t n d g = Inl (ValueError ''Expected true or false'')"
    for t n d g
    using a by (simp add: AnkiCard_init_def parse_anki_header_bool_def)
  have "AnkiCard_from_header r field_names (AList.delete ''separator'' hdr)
          = Inl (ValueError ''Expected true or false'')"
    unfolding AnkiCard_from_header_def b kw by (simp add: init)
  then have "create_cards (fst (csv_reader f)) field_names (AList.delete ''separator'' hdr)
          = Inl (ValueError ''Expected true or false'')"
    by (simp add: rows)
  with a show "parse_anki_export exported_file field_names
      = Inl (ValueError ''Expected true or false'')"
    by (simp add: parse_anki_export_def create_cards_from_tsv_def)
next
  assume "map_of hdr' ''has_html'' = None \<and>
    AnkiCard_from_header row field_names hdr' = Inr (c, ws)"
  then show "has_html c = False"
    by (auto simp: AnkiCard_from_header_def AnkiCard_init_def keyword_argument_def
        parse_anki_header_bool_def split: sum.splits prod.splits)
qed

theorem has_html_must_be_true_or_false_witness:
  "PInt 0 \<noteq> PStr ''true'' \<and> PInt 0 \<noteq> PStr ''false'' \<and>
   AnkiCard_init [''a''] None (PInt 0) PNone PNone PNone PNone
     = Inl (ValueError ''Expected true or false'') \<and>
   parse_header_settings (''#separator:tab'' @ [CHR 0x0A] @ ''#html:1'' @ [CHR 0x0A] @ ''a'')
     = Inr ([(''separator'', PStr ''tab''), (''has_html'', PInt 0)], ''a'') \<and>
   map_of [(''separator'', PStr ''tab''), (''has_html'', PInt 0)] ''separator''
     = Some (PStr ''tab'') \<and>
   map_of [(''separator'', PStr ''tab''), (''has_html'', PInt 0)] ''has_html'' = Some (PInt 0) \<and>
   fst (csv_reader ''a'') \<noteq> [] \<and>
   parse_anki_export (''#separator:tab'' @ [CHR 0x0A] @ ''#html:1'' @ [CHR 0x0A] @ ''a'') None
     = Inl (ValueError ''Expected true or false'') \<and>
   map_of ([] :: header) ''has_html'' = None \<and>
   AnkiCard_from_header [''a''] None []
     = Inr (\<lparr>has_html = False, card_fields = [(''Field0'', ''a'')]\<rparr>, []) \<and>
   has_html \<lparr>has_html = False, card_fields = [(''Field0'', ''a'')]\<rparr> = False"
proof -
  let ?s = "''#separator:tab'' @ [CHR 0x0A] @ ''#html:1'' @ [CHR 0x0A] @ ''a''"
  let ?hdr = "[(''separator'', PStr ''tab''), (''has_html'', PInt 0)]"
  let ?c = "\<lparr>has_html = False, card_fields = [(''Field0'', ''a'')]\<rparr>"
  note t = has_html_must_be_true_or_false [where has_html_arg = "PInt 0" and row = "[''a'']"
      and field_names = None and tags_idx = PNone and note_type_idx = PNone and deck_idx = PNone
      and guid_idx = PNone and exported_file = ?s and hdr = ?hdr and f = "''a''"
      and v = "PInt 0" and hdr' = "[]" and c = ?c and ws = "[]"]
  have a1: "PInt 0 \<noteq> PStr ''true'' \<and> PInt 0 \<noteq> PStr ''false''" by simp
  have b1: "parse_header_settings ?s = Inr (?hdr, ''a'')" by (simp add: codec_defs)
  have b2: "map_of ?hdr ''separator'' = Some (PStr ''tab'')" by simp
  have b3: "map_of ?hdr ''has_html'' = Some (PInt 0)" by simp
  have b4: "fst (csv_reader ''a'') \<noteq> []" by (simp add: deck_defs)
  have c1: "map_of ([] :: header) ''has_html'' = None" by simp
  have c2: "AnkiCard_from_header [''a''] None [] = Inr (?c, [])"
    by (simp add: deck_defs resolver_defs bind_call_def)
  from t a1 have a: "AnkiCard_init [''a''] None (PInt 0) PNone PNone PNone PNone
     = Inl (ValueError ''Expected true or false'')" by blast
  from t a1 b1 b2 b3 b4 have b: "parse_anki_export ?s None
     = Inl (ValueError ''Expected true or false'')" by blast
  from t c1 c2 have c: "has_html ?c = False" by blast
  from a1 a b1 b2 b3 b4 b c1 c2 c show ?thesis by blast
qed

subsection \<open>Decimal notation read back\<close>

lemma digit_value_digit_char: "d < 10 \<Longrightarrow> digit_value (digit_char d) = Some d"
proof -
  assume "d < 10"
  then have "d \<in> {0, 1, 2, 3, 4, 5, 6, 7, 8, 9}" by auto
  then show ?thesis by (auto simp: digit_value_def digit_char_def)
qed

lemma digit_char_plain:
  "d < 10 \<Longrightarrow> \<not> py_isspace (digit_char d) \<and> \<not> int_isspace (digit_char d) \<and>
     digit_char d \<notin> {CHR '':'', CHR 0x0A, CHR 0x0D, CHR ''-'', CHR ''+'', CHR ''_''}"
proof -
  assume "d < 10"
  then have "d \<in> {0, 1, 2, 3, 4, 5, 6, 7, 8, 9}" by auto
  then show ?thesis by (auto simp: py_isspace_def int_isspace_def digit_char_def)
qed

lemma str_nat_digits: "c \<in> set (str_nat n) \<Longrightarrow> \<exists>d < 10. c = digit_char d"
proof (induction n rule: str_nat.induct)
  case (1 n)
  show ?case
  proof (cases "n < 10")
    case True
    with "1.prems" show ?thesis by (auto simp: str_nat.simps [of n])
  next
    case False
    with "1.prems" have "c \<in> set (str_nat (n div 10)) \<or> c = digit_char (n mod 10)"
      by (auto simp: str_nat.simps [of n])
    then show ?thesis
    proof
      assume "c \<in> set (str_nat (n div 10))"
      with "1.IH" False show ?thesis by simp
    next
      assume "c = digit_char (n mod 10)"
      moreover have "n mod 10 < 10" by simp
      ultimately show ?thesis by blast
    qed
  qed
qed

lemma str_nat_nonempty: "str_nat n \<noteq> []"
  by (simp add: str_nat.simps [of n])

lemma parse_digits_all:
  "ds \<noteq> [] \<Longrightarrow> \<forall>c \<in> set ds. \<exists>d < 10. c = digit_char d \<Longrightarrow>
   parse_digits acc ds = Some (foldl (\<lambda>a c. 10 * a + the (digit_value c)) acc ds)"
proof (induction ds arbitrary: acc)
  case Nil
  then show ?case by simp
next
  case (Cons c cs)
  from Cons.prems(2) obtain d where d: "d < 10" "c = digit_char d" by auto
  then have dv: "digit_value c = Some d" by (simp add: digit_value_digit_char)
  show ?case
  proof (cases cs)
    case Nil
    with dv show ?thesis by simp
  next
    case (Cons c' cs')
    from Cons.prems(2) Cons obtain d' where "d' < 10" "c' = digit_char d'" by auto
    then have "c' \<noteq> CHR ''_''" using digit_char_plain [of d'] by auto
    moreover have "parse_digits (10 * acc + d) cs
        = Some (foldl (\<lambda>a c. 10 * a + the (digit_value c)) (10 * acc + d) cs)"
      using Cons.IH [of "10 * acc + d"] Cons.prems(2) Cons by simp
    ultimately show ?thesis using dv Cons by simp
  qed
qed

lemma foldl_str_nat: "foldl (\<lambda>a c. 10 * a + the (digit_value c)) 0 (str_nat n) = n"
proof (induction n rule: str_nat.induct)
  case (1 n)
  show ?case
  proof (cases "n < 10")
    case True
    then show ?thesis by (simp add: str_nat.simps [of n] digit_value_digit_char)
  next
    case False
    with "1.IH" show ?thesis
      by (simp add: str_nat.simps [of n] digit_value_digit_char)
  qed
qed

lemma parse_digits_str_nat: "parse_digits 0 (str_nat n) = Some n"
  using parse_digits_all [of "str_nat n" 0] str_nat_digits [of _ n]
  by (simp add: str_nat_nonempty foldl_str_nat)

lemma str_int_chars:
  "c \<in> set (str_int i) \<Longrightarrow>
   \<not> py_isspace c \<and> \<not> int_isspace c \<and> c \<noteq> CHR '':'' \<and> c \<noteq> CHR 0x0A \<and>
   c \<noteq> CHR 0x0D"
proof -
  assume "c \<in> set (str_int i)"
  then have "c = CHR ''-'' \<or> (\<exists>n. c \<in> set (str_nat n))"
    by (auto simp: str_int_def split: if_splits)
  then show ?thesis
  proof
    assume "c = CHR ''-''"
    then show ?thesis by (simp add: py_isspace_def int_isspace_def)
  next
    assume "\<exists>n. c \<in> set (str_nat n)"
    then obtain d where "d < 10" "c = digit_char d" using str_nat_digits by blast
    then show ?thesis using digit_char_plain [of d] by auto
  qed
qed

lemma str_int_nonempty: "str_int i \<noteq> []"
  by (simp add: str_int_def str_nat_nonempty)

lemma rstrip_no_space: "s \<noteq> [] \<Longrightarrow> \<not> py_isspace (last s) \<Longrightarrow> rstrip s = s"
proof -
  assume "s \<noteq> []" "\<not> py_isspace (last s)"
  then have "dropWhile py_isspace (rev s) = rev s"
    by (simp add: dropWhile_eq_self_iff hd_rev)
  then show ?thesis by (simp add: rstrip_def)
qed

lemma strip_no_space:
  "s \<noteq> [] \<Longrightarrow> \<not> int_isspace (last s) \<Longrightarrow> \<not> int_isspace (hd s) \<Longrightarrow> strip s = s"
proof -
  assume "s \<noteq> []" "\<not> int_isspace (last s)" "\<not> int_isspace (hd s)"
  then have "dropWhile int_isspace (rev s) = rev s" "dropWhile int_isspace s = s"
    by (simp_all add: dropWhile_eq_self_iff hd_rev)
  then show ?thesis by (simp add: strip_def)
qed

lemma rstrip_str_int: "rstrip (str_int i) = str_int i"
  using str_int_chars [of "last (str_int i)" i] str_int_nonempty [of i]
  by (simp add: rstrip_no_space)

lemma py_int_str_int: "py_int (str_int i) = Some i"
proof -
  have ne: "str_int i \<noteq> []" by (rule str_int_nonempty)
  have st: "strip (str_int i) = str_int i"
    using str_int_chars [of "last (str_int i)" i] str_int_chars [of "hd (str_int i)" i] ne
    by (simp add: strip_no_space)
  show ?thesis
  proof (cases "i < 0")
    case True
    then have "str_int i = CHR ''-'' # str_nat (nat (- i))" by (simp add: str_int_def)
    with st True show ?thesis by (simp add: py_int_def parse_digits_str_nat)
  next
    case False
    obtain c cs where ccs: "str_nat (nat i) = c # cs"
      using str_nat_nonempty [of "nat i"] by (cases "str_nat (nat i)") auto
    then have "c \<in> set (str_nat (nat i))" by simp
    then obtain d where "d < 10" "c = digit_char d" using str_nat_digits by blast
    then have c: "c \<noteq> CHR ''-''" "c \<noteq> CHR ''+''" using digit_char_plain [of d] by auto
    from False have si: "str_int i = c # cs" by (simp add: str_int_def ccs)
    have "parse_digits 0 (c # cs) = Some (nat i)"
      using parse_digits_str_nat [of "nat i"] by (simp only: ccs)
    with st si c False show ?thesis by (simp add: py_int_def)
  qed
qed

subsection \<open>Reading one header line\<close>

lemma readline_line:
  "\<forall>c \<in> set pre. c \<noteq> CHR 0x0A \<and> c \<noteq> CHR 0x0D \<Longrightarrow>
   readline (pre @ CHR 0x0A # rest) = (pre @ [CHR 0x0A], rest)"
  by (induction pre) simp_all

lemma split_on_none: "sep \<notin> set s \<Longrightarrow> split_on sep s = [s]"
  by (induction s) auto

lemma split_on_first:
  "sep \<notin> set a \<Longrightarrow> split_on sep (a @ sep # b) = a # split_on sep b"
  by (induction a) auto

lemma rstrip_newline: "rstrip (s @ [CHR 0x0A]) = rstrip s"
  by (simp add: rstrip_def py_isspace_def)

lemma plain_text:
  assumes "plain_value v"
  shows "CHR '':'' \<notin> set (py_str v) \<and> CHR 0x0A \<notin> set (py_str v) \<and> CHR 0x0D \<notin> set (py_str v)
    \<and> transform_integer_value (PStr (rstrip (py_str v))) 0 1 = Inr v"
proof (cases v)
  case PNone
  with assms show ?thesis by (simp add: plain_value_def)
next
  case (PStr s)
  with assms show ?thesis
    by (simp add: plain_value_def py_str_def transform_integer_value_def)
next
  case (PInt i)
  have "c \<in> set (str_int i) \<Longrightarrow> c \<noteq> CHR '':'' \<and> c \<noteq> CHR 0x0A \<and> c \<noteq> CHR 0x0D" for c
    using str_int_chars [of c i] by simp
  then have "CHR '':'' \<notin> set (str_int i) \<and> CHR 0x0A \<notin> set (str_int i)
      \<and> CHR 0x0D \<notin> set (str_int i)" by blast
  with PInt show ?thesis
    by (simp add: py_str_def transform_integer_value_def rstrip_str_int py_int_str_int)
qed

lemma read_one_line:
  assumes name: "CHR '':'' \<notin> set name \<and> CHR 0x0A \<notin> set name \<and> CHR 0x0D \<notin> set name"
    and v: "plain_value v"
  shows "read_header_settings_loop acc
           (CHR ''#'' # name @ CHR '':'' # py_str v @ CHR 0x0A # rest)
         = read_header_settings_loop (AList.update name v acc) rest"
proof -
  note t = plain_text [OF v]
  have "\<forall>c \<in> set (name @ CHR '':'' # py_str v). c \<noteq> CHR 0x0A \<and> c \<noteq> CHR 0x0D"
    using name t by auto
  from readline_line [OF this, of rest]
  have rl: "readline (name @ CHR '':'' # py_str v @ CHR 0x0A # rest)
              = (name @ CHR '':'' # py_str v @ [CHR 0x0A], rest)" by simp
  have "CHR '':'' \<notin> set (py_str v @ [CHR 0x0A])" using t by simp
  then have sp: "split_on (CHR '':'') (name @ CHR '':'' # py_str v @ [CHR 0x0A])
              = [name, py_str v @ [CHR 0x0A]]"
    using name by (simp add: split_on_first split_on_none)
  show ?thesis
    by (simp add: rl sp rstrip_newline t)
qed

lemma read_header_lines:
  assumes "\<forall>name \<in> set ns. CHR '':'' \<notin> set name \<and> CHR 0x0A \<notin> set name \<and> CHR 0x0D \<notin> set name"
    and "\<forall>name v. map_of wire name = Some v \<longrightarrow> plain_value v"
  shows "read_header_settings_loop acc (concat (map (header_line wire) ns) @ rest)
         = read_header_settings_loop
             (foldl (\<lambda>d name. case map_of wire name of None \<Rightarrow> d
                               | Some v \<Rightarrow> AList.update name v d) acc ns) rest"
  using assms(1)
proof (induction ns arbitrary: acc)
  case Nil
  then show ?case by simp
next
  case (Cons n ns)
  show ?case
  proof (cases "map_of wire n")
    case None
    with Cons show ?thesis by (simp add: header_line_def)
  next
    case (Some v)
    with assms(2) have pv: "plain_value v" by blast
    then have "v \<noteq> PNone" by (auto simp: plain_value_def)
    with Some have hl: "header_line wire n = CHR ''#'' # n @ CHR '':'' # py_str v @ [CHR 0x0A]"
      by (cases v) (simp_all add: header_line_def)
    from Cons.prems have n: "CHR '':'' \<notin> set n \<and> CHR 0x0A \<notin> set n \<and> CHR 0x0D \<notin> set n"
      by simp
    from read_one_line [OF n pv, of acc "concat (map (header_line wire) ns) @ rest"]
      Cons.IH [of "AList.update n v acc"] Cons.prems Some hl
    show ?thesis by simp
  qed
qed

lemma map_of_foldl_present:
  "map_of (foldl (\<lambda>d name. case f name of None \<Rightarrow> d | Some v \<Rightarrow> AList.update name v d) acc ns) k
   = (if k \<in> set ns then (case f k of None \<Rightarrow> map_of acc k | Some v \<Rightarrow> Some v)
      else map_of acc k)"
  by (induction ns arbitrary: acc) (auto simp: update_conv' split: option.splits)

lemma keys_foldl_present:
  "distinct (map fst acc) \<Longrightarrow>
   distinct (map fst (foldl (\<lambda>d name. case f name of None \<Rightarrow> d
                               | Some v \<Rightarrow> AList.update name v d) acc ns)) \<and>
   fst ` set (foldl (\<lambda>d name. case f name of None \<Rightarrow> d
                               | Some v \<Rightarrow> AList.update name v d) acc ns)
     \<subseteq> fst ` set acc \<union> set ns"
proof (induction ns arbitrary: acc)
  case Nil
  then show ?case by simp
next
  case (Cons n ns)
  show ?case
  proof (cases "f n")
    case None
    with Cons.IH [OF Cons.prems] show ?thesis by auto
  next
    case (Some v)
    have "distinct (map fst (AList.update n v acc))" using Cons.prems by (rule distinct_update)
    from Cons.IH [OF this] Some show ?thesis by (auto simp: dom_update)
  qed
qed

subsection \<open>Reformatting\<close>

lemma transform_plain:
  assumes "plain_value v"
  shows "\<exists>w. transform_integer_value v 1 1 = Inr w \<and> plain_value w \<and>
             transform_integer_value w (- 1) 1 = Inr v"
  using assms by (cases v) (simp_all add: plain_value_def transform_integer_value_def)

lemma transform_not_none: "v \<noteq> PNone \<Longrightarrow> \<exists>w. transform_integer_value v t 1 = Inr w"
  by (cases v) (simp_all add: transform_integer_value_def split: option.splits)

lemma reformat_items_succeeds:
  "\<forall>(k, v) \<in> set items. map_of m k \<noteq> None \<and> v \<noteq> PNone \<Longrightarrow>
   \<exists>r. reformat_items m t items acc = Inr r"
proof (induction items arbitrary: acc)
  case Nil
  then show ?case by simp
next
  case (Cons item items)
  obtain k v where item: "item = (k, v)" by (cases item)
  from Cons.prems item obtain nk where nk: "map_of m k = Some nk" by auto
  from Cons.prems item have "v \<noteq> PNone" by auto
  from transform_not_none [OF this] obtain w where w: "transform_integer_value v t 1 = Inr w"
    by blast
  from Cons.prems have "\<forall>(k, v) \<in> set items. map_of m k \<noteq> None \<and> v \<noteq> PNone" by simp
  from Cons.IH [OF this, of "AList.update nk w acc"] item nk w show ?case by simp
qed

lemma map_of_unique_key:
  "distinct (map snd m) \<Longrightarrow> map_of m k1 = Some k' \<Longrightarrow> map_of m k2 = Some k' \<Longrightarrow> k1 = k2"
proof -
  assume d: "distinct (map snd m)" and a: "map_of m k1 = Some k'" and b: "map_of m k2 = Some k'"
  from a have "(k1, k') \<in> set m" by (rule map_of_SomeD)
  moreover from b have "(k2, k') \<in> set m" by (rule map_of_SomeD)
  moreover from d have "inj_on snd (set m)" by (simp add: distinct_map)
  ultimately show ?thesis using inj_onD [of snd "set m" "(k1, k')" "(k2, k')"] by simp
qed

lemma reformat_items_map_of:
  assumes "reformat_items m t items acc = Inr r"
    and "distinct (map fst items)"
    and "distinct (map snd m)"
    and "map_of m k = Some k'"
  shows "map_of r k' =
           (case map_of items k of
              Some v \<Rightarrow> (case transform_integer_value v t 1 of Inr w \<Rightarrow> Some w | Inl e \<Rightarrow> None)
            | None \<Rightarrow> map_of acc k')"
  using assms(1,2)
proof (induction items arbitrary: acc)
  case Nil
  then show ?case by simp
next
  case (Cons item items)
  obtain s v where item: "item = (s, v)" by (cases item)
  from Cons.prems(1) item obtain nk nv where
    nk: "map_of m s = Some nk" and nv: "transform_integer_value v t 1 = Inr nv" and
    rest: "reformat_items m t items (AList.update nk nv acc) = Inr r"
    by (auto split: option.splits sum.splits)
  from Cons.prems(2) item have d: "distinct (map fst items)" and s: "s \<notin> fst ` set items"
    by auto
  note ih = Cons.IH [OF rest d]
  show ?case
  proof (cases "k = s")
    case True
    with nk assms(4) have "k' = nk" by simp
    moreover from s True have "map_of items k = None" by (simp add: map_of_eq_None_iff)
    ultimately show ?thesis using ih item True nv by (simp add: update_conv')
  next
    case False
    have "k' \<noteq> nk"
    proof
      assume "k' = nk"
      with nk assms(4) map_of_unique_key [OF assms(3)] have "k = s" by blast
      with False show False by simp
    qed
    with ih item False show ?thesis by (simp add: update_conv' split: option.splits)
  qed
qed

lemma set_update_subset: "set (AList.update k v al) \<subseteq> insert (k, v) (set al)"
  by (induction al) auto

lemma reformat_items_plain:
  "reformat_items m 1 items acc = Inr r \<Longrightarrow> \<forall>v \<in> snd ` set items. plain_value v \<Longrightarrow>
   \<forall>v \<in> snd ` set acc. plain_value v \<Longrightarrow> \<forall>v \<in> snd ` set r. plain_value v"
proof (induction items arbitrary: acc)
  case Nil
  then show ?case by simp
next
  case (Cons item items)
  obtain s v where item: "item = (s, v)" by (cases item)
  from Cons.prems(1) item obtain nk nv where
    nv: "transform_integer_value v 1 1 = Inr nv" and
    rest: "reformat_items m 1 items (AList.update nk nv acc) = Inr r"
    by (auto split: option.splits sum.splits)
  from Cons.prems(2) item have "plain_value v" by simp
  from transform_plain [OF this] nv have "plain_value nv" by auto
  with Cons.prems(3) set_update_subset [of nk nv acc]
  have "\<forall>v \<in> snd ` set (AList.update nk nv acc). plain_value v" by fastforce
  moreover from Cons.prems(2) have "\<forall>v \<in> snd ` set items. plain_value v" by simp
  ultimately show ?case using Cons.IH [OF rest] by blast
qed

subsection \<open>The round trip of a header\<close>

lemma mapping_facts:
  "distinct (map fst ANKI_EXPORT_HEADER_MAPPING)"
  "distinct (map snd ANKI_EXPORT_HEADER_MAPPING)"
  "distinct (map fst ANKI_EXPORT_HEADER_MAPPING_REVERSE)"
  "distinct (map snd ANKI_EXPORT_HEADER_MAPPING_REVERSE)"
  "fst ` set ANKI_EXPORT_HEADER_MAPPING_REVERSE = snd ` set ANKI_EXPORT_HEADER_MAPPING"
  "snd ` set ANKI_EXPORT_HEADER_MAPPING_REVERSE = set ANKI_ORDERED_HEADER"
  "fst ` set ANKI_EXPORT_HEADER_MAPPING = set ANKI_ORDERED_HEADER"
  "\<forall>name \<in> set ANKI_ORDERED_HEADER.
     CHR '':'' \<notin> set name \<and> CHR 0x0A \<notin> set name \<and> CHR 0x0D \<notin> set name"
  by (auto simp: ANKI_EXPORT_HEADER_MAPPING_def ANKI_EXPORT_HEADER_MAPPING_REVERSE_def
      ANKI_ORDERED_HEADER_def)

lemma mapping_pairs:
  assumes "k \<in> snd ` set ANKI_EXPORT_HEADER_MAPPING"
  shows "\<exists>wk. map_of ANKI_EXPORT_HEADER_MAPPING wk = Some k \<and>
              map_of ANKI_EXPORT_HEADER_MAPPING_REVERSE k = Some wk"
  using assms
  by (auto simp: ANKI_EXPORT_HEADER_MAPPING_def ANKI_EXPORT_HEADER_MAPPING_REVERSE_def)

text \<open>
  C4, as stated: for every header in internal form without \<^verbatim>\<open>None\<close> values, writing
  it and parsing the text gives back every setting. The parser strips trailing
  whitespace from a value, so the separator given as a space comes back empty.
\<close>

theorem header_round_trip_counterexample:
  "write_header [(''separator'', PStr '' '')] = Inr (''#separator: '' @ [CHR 0x0A]) \<and>
   parse_header_settings (''#separator: '' @ [CHR 0x0A]) = Inr ([(''separator'', PStr '''')], [])
   \<and> map_of [(''separator'', PStr '''')] ''separator''
       \<noteq> map_of [(''separator'', PStr '' '')] ''separator''"
  by (simp add: codec_defs)

text \<open>
  C4, amended: for every header in internal form (distinct keys, all of them internal
  names) whose values are plain, that is integers, or strings that \<^verbatim>\<open>int()\<close> rejects,
  that have no trailing whitespace and hold no \<^verbatim>\<open>:\<close> and no line break, writing the
  header succeeds, parsing the text written succeeds and consumes it, and the parsed
  header has exactly the settings of the original, column indexes included.
\<close>

theorem header_round_trip:
  assumes d: "distinct (map fst h)"
    and keys: "fst ` set h \<subseteq> snd ` set ANKI_EXPORT_HEADER_MAPPING"
    and plain: "\<forall>v \<in> snd ` set h. plain_value v"
  shows "\<exists>text h'. write_header h = Inr text \<and> parse_header_settings text = Inr (h', [])
           \<and> map_of h' = map_of h"
proof -
  let ?FWD = ANKI_EXPORT_HEADER_MAPPING
  let ?REV = ANKI_EXPORT_HEADER_MAPPING_REVERSE
  let ?present = "\<lambda>wire d name. case map_of wire name of None \<Rightarrow> d
                    | Some v \<Rightarrow> AList.update name v d"
  have "\<forall>(k, v) \<in> set h. map_of ?REV k \<noteq> None \<and> v \<noteq> PNone"
  proof (clarify, rule conjI)
    fix k v assume kv: "(k, v) \<in> set h"
    then have "k \<in> fst ` set ?REV" using keys mapping_facts(5) by force
    then show "map_of ?REV k \<noteq> None" by (simp add: map_of_eq_None_iff)
    from kv plain have "plain_value v" by force
    then show "v \<noteq> PNone" by (auto simp: plain_value_def)
  qed
  from reformat_items_succeeds [OF this] obtain wire where
    wire: "reformat_items ?REV 1 h [] = Inr wire" by blast
  from reformat_items_keys [OF wire] mapping_facts(6) have
    wire_d: "distinct (map fst wire)" and
    wire_keys: "fst ` set wire \<subseteq> set ANKI_ORDERED_HEADER" by simp_all
  from reformat_items_plain [OF wire plain] have
    wire_plain: "\<forall>v \<in> snd ` set wire. plain_value v" by simp
  have wire_plain': "\<forall>name v. map_of wire name = Some v \<longrightarrow> plain_value v"
  proof (intro allI impI)
    fix name v assume "map_of wire name = Some v"
    then have "(name, v) \<in> set wire" by (rule map_of_SomeD)
    with wire_plain show "plain_value v" by force
  qed
  let ?text = "concat (map (header_line wire) ANKI_ORDERED_HEADER)"
  let ?raw = "foldl (?present wire) [] ANKI_ORDERED_HEADER"
  have wh: "write_header h = Inr ?text"
    using wire
    by (simp add: write_header_def reformat_header_settings_def DIRECTION_MAPPING_def
        DIRECTION_TRANSLATION_VALUE_def)
  from read_header_lines [OF mapping_facts(8) wire_plain', of "[]" "[]"]
  have rd: "read_header_settings ?text = Inr (?raw, [])"
    by (simp add: read_header_settings_def)
  have raw_map: "map_of ?raw k = map_of wire k" for k
  proof (cases "k \<in> set ANKI_ORDERED_HEADER")
    case True
    then show ?thesis by (simp add: map_of_foldl_present split: option.splits)
  next
    case False
    with wire_keys have "k \<notin> fst ` set wire" by blast
    then have "map_of wire k = None" by (simp add: map_of_eq_None_iff)
    with False show ?thesis by (simp add: map_of_foldl_present)
  qed
  from keys_foldl_present [of "[]" "map_of wire" ANKI_ORDERED_HEADER] have
    raw_d: "distinct (map fst ?raw)" and
    raw_keys: "fst ` set ?raw \<subseteq> set ANKI_ORDERED_HEADER" by simp_all
  have "\<forall>(k, v) \<in> set ?raw. map_of ?FWD k \<noteq> None \<and> v \<noteq> PNone"
  proof (clarify, rule conjI)
    fix k v assume kv: "(k, v) \<in> set ?raw"
    then have "k \<in> fst ` set ?FWD" using raw_keys mapping_facts(7) by force
    then show "map_of ?FWD k \<noteq> None" by (simp add: map_of_eq_None_iff)
    from kv raw_d have "map_of ?raw k = Some v" by simp
    then have "map_of wire k = Some v" by (simp add: raw_map)
    with wire_plain' have "plain_value v" by blast
    then show "v \<noteq> PNone" by (auto simp: plain_value_def)
  qed
  from reformat_items_succeeds [OF this] obtain h' where
    h': "reformat_items ?FWD (- 1) ?raw [] = Inr h'" by blast
  have ph: "parse_header_settings ?text = Inr (h', [])"
    using rd h'
    by (simp add: parse_header_settings_def reformat_header_settings_def DIRECTION_MAPPING_def
        DIRECTION_TRANSLATION_VALUE_def)
  from reformat_items_keys [OF h'] have h'_keys: "fst ` set h' \<subseteq> snd ` set ?FWD" by simp
  have "map_of h' k = map_of h k" for k
  proof (cases "k \<in> snd ` set ?FWD")
    case False
    with keys have "k \<notin> fst ` set h" by blast
    then have "map_of h k = None" by (simp add: map_of_eq_None_iff)
    moreover from False h'_keys have "k \<notin> fst ` set h'" by blast
    then have "map_of h' k = None" by (simp add: map_of_eq_None_iff)
    ultimately show ?thesis by simp
  next
    case True
    from mapping_pairs [OF True] obtain wk where
      fwd: "map_of ?FWD wk = Some k" and rev: "map_of ?REV k = Some wk" by blast
    from reformat_items_map_of [OF h' raw_d mapping_facts(2) fwd]
    have m1: "map_of h' k =
        (case map_of wire wk of
           Some v \<Rightarrow> (case transform_integer_value v (- 1) 1 of Inr w \<Rightarrow> Some w
                      | Inl e \<Rightarrow> None)
         | None \<Rightarrow> None)"
      by (simp add: raw_map split: option.splits)
    from reformat_items_map_of [OF wire d mapping_facts(4) rev]
    have m2: "map_of wire wk =
        (case map_of h k of
           Some v \<Rightarrow> (case transform_integer_value v 1 1 of Inr w \<Rightarrow> Some w | Inl e \<Rightarrow> None)
         | None \<Rightarrow> None)"
      by (simp split: option.splits)
    show ?thesis
    proof (cases "map_of h k")
      case None
      with m1 m2 show ?thesis by simp
    next
      case (Some v)
      then have "(k, v) \<in> set h" by (rule map_of_SomeD)
      with plain have "plain_value v" by force
      from transform_plain [OF this] obtain w where
        "transform_integer_value v 1 1 = Inr w" "transform_integer_value w (- 1) 1 = Inr v"
        by blast
      with m1 m2 Some show ?thesis by simp
    qed
  qed
  then have "map_of h' = map_of h" by (rule ext)
  with wh ph show ?thesis by blast
qed

theorem header_round_trip_witness:
  "distinct (map fst [(''guid_idx'', PInt 0), (''separator'', PStr ''tab''),
                      (''has_html'', PStr ''true'')]) \<and>
   fst ` set [(''guid_idx'', PInt 0), (''separator'', PStr ''tab''), (''has_html'', PStr ''true'')]
     \<subseteq> snd ` set ANKI_EXPORT_HEADER_MAPPING \<and>
   plain_value (PInt 0) \<and> plain_value (PStr ''tab'') \<and> plain_value (PStr ''true'') \<and>
   write_header [(''guid_idx'', PInt 0), (''separator'', PStr ''tab''),
                 (''has_html'', PStr ''true'')]
     = Inr (''#separator:tab'' @ [CHR 0x0A] @ ''#html:true'' @ [CHR 0x0A] @
            ''#guid column:1'' @ [CHR 0x0A]) \<and>
   parse_header_settings (''#separator:tab'' @ [CHR 0x0A] @ ''#html:true'' @ [CHR 0x0A] @
            ''#guid column:1'' @ [CHR 0x0A])
     = Inr ([(''separator'', PStr ''tab''), (''has_html'', PStr ''true''), (''guid_idx'', PInt 0)],
            []) \<and>
   (\<exists>text h'. write_header [(''guid_idx'', PInt 0), (''separator'', PStr ''tab''),
                 (''has_html'', PStr ''true'')] = Inr text \<and>
      parse_header_settings text = Inr (h', []) \<and>
      map_of h' = map_of [(''guid_idx'', PInt 0), (''separator'', PStr ''tab''),
                 (''has_html'', PStr ''true'')])"
proof -
  let ?h = "[(''guid_idx'', PInt 0), (''separator'', PStr ''tab''), (''has_html'', PStr ''true'')]"
  have h1: "distinct (map fst ?h)" by simp
  have h2: "fst ` set ?h \<subseteq> snd ` set ANKI_EXPORT_HEADER_MAPPING"
    by (simp add: ANKI_EXPORT_HEADER_MAPPING_def)
  have p: "plain_value (PInt 0) \<and> plain_value (PStr ''tab'') \<and> plain_value (PStr ''true'')"
    by (simp add: plain_value_def codec_defs)
  then have h3: "\<forall>v \<in> snd ` set ?h. plain_value v" by simp
  have w: "write_header ?h
     = Inr (''#separator:tab'' @ [CHR 0x0A] @ ''#html:true'' @ [CHR 0x0A] @
            ''#guid column:1'' @ [CHR 0x0A])"
    by (simp add: codec_defs str_nat.simps digit_char_def)
  have r: "parse_header_settings (''#separator:tab'' @ [CHR 0x0A] @ ''#html:true'' @ [CHR 0x0A] @
            ''#guid column:1'' @ [CHR 0x0A])
     = Inr ([(''separator'', PStr ''tab''), (''has_html'', PStr ''true''), (''guid_idx'', PInt 0)],
            [])"
    by (simp add: codec_defs)
  from h1 h2 p w r header_round_trip [OF h1 h2 h3] show ?thesis by blast
qed

end
